theory Spec2Isabelle
  imports Main "HOL-Library.Sublist" "HOL-Library.Char_ord" "HOL-Library.List_Lexorder"
begin

section \<open>Python strings\<close>

text \<open>
  A Python \<open>str\<close> is modelled as a \<open>string\<close> (a list of \<open>char\<close>), one \<open>char\<close> per code
  point; only code points below 256 are representable. \<open>len\<close> is \<open>length\<close>.
\<close>

definition is_space :: "char \<Rightarrow> bool" where
  \<comment> \<open>\<open>str.isspace\<close> on the code points below 256.\<close>
  "is_space c = (of_char c \<in> {9, 10, 11, 12, 13, 28, 29, 30, 31, 32, 133, 160 :: nat})"

definition lstrip :: "string \<Rightarrow> string" where
  "lstrip s = dropWhile is_space s"

definition rstrip :: "string \<Rightarrow> string" where
  "rstrip s = rev (dropWhile is_space (rev s))"

definition strip :: "string \<Rightarrow> string" where
  \<comment> \<open>\<open>s.strip()\<close>\<close>
  "strip s = rstrip (lstrip s)"

definition strip_char :: "char \<Rightarrow> string \<Rightarrow> string" where
  \<comment> \<open>\<open>s.strip(c)\<close> for a single character \<open>c\<close>\<close>
  "strip_char c s = rev (dropWhile (\<lambda>x. x = c) (rev (dropWhile (\<lambda>x. x = c) s)))"

fun find_char :: "char \<Rightarrow> string \<Rightarrow> int" where
  \<comment> \<open>\<open>s.find(c)\<close>: the index of the first \<open>c\<close>, or \<open>-1\<close>\<close>
  "find_char c [] = -1"
| "find_char c (x # xs) =
     (if x = c then 0 else (let r = find_char c xs in if r < 0 then -1 else r + 1))"

fun split2 :: "char \<Rightarrow> char \<Rightarrow> string \<Rightarrow> string \<Rightarrow> string list" where
  \<comment> \<open>\<open>s.split(sep)\<close> for a two-character separator \<open>sep = [a, b]\<close>; the second
      argument is the piece read so far.\<close>
  "split2 a b cur (x # y # rest) =
     (if x = a \<and> y = b then cur # split2 a b [] rest
      else split2 a b (cur @ [x]) (y # rest))"
| "split2 a b cur [x] = [cur @ [x]]"
| "split2 a b cur [] = [cur]"

definition NL :: char where
  "NL = CHR 0x0A"

definition split_paragraphs :: "string \<Rightarrow> string list" where
  \<comment> \<open>\<open>text.split('\n\n')\<close>\<close>
  "split_paragraphs s = split2 NL NL [] s"

definition split_sentences :: "string \<Rightarrow> string list" where
  \<comment> \<open>\<open>paragraph.split('. ')\<close>\<close>
  "split_sentences s = split2 (CHR ''.'') (CHR '' '') [] s"

definition py_take :: "int \<Rightarrow> 'a list \<Rightarrow> 'a list" where
  \<comment> \<open>The slice \<open>xs[:k]\<close>; a negative \<open>k\<close> counts from the end.\<close>
  "py_take k xs = (if 0 \<le> k then take (nat k) xs else take (nat (int (length xs) + k)) xs)"

section \<open>Chunker: \<open>DocumentConverter._split_text\<close>\<close>

type_synonym chunker_state = "string list \<times> string"
  \<comment> \<open>\<open>(segments, current_chunk)\<close>\<close>

definition flush :: "chunker_state \<Rightarrow> string list" where
  \<comment> \<open>\<open>if current_chunk: segments.append(current_chunk.strip())\<close>\<close>
  "flush st = (case st of (segments, current_chunk) \<Rightarrow>
     if current_chunk \<noteq> [] then segments @ [strip current_chunk] else segments)"

fun sentence_loop :: "int \<Rightarrow> string list \<Rightarrow> chunker_state \<Rightarrow> chunker_state" where
  \<comment> \<open>\<open>for sentence in sentences\<close>\<close>
  "sentence_loop max_size [] st = st"
| "sentence_loop max_size (sentence # rest) (segments, current_chunk) =
     (if int (length current_chunk) + int (length sentence) + 2 \<le> max_size
      then sentence_loop max_size rest (segments, current_chunk @ sentence @ ''. '')
      else sentence_loop max_size rest (flush (segments, current_chunk), sentence @ ''. ''))"

fun paragraph_loop :: "int \<Rightarrow> string list \<Rightarrow> chunker_state \<Rightarrow> chunker_state" where
  \<comment> \<open>\<open>for paragraph in paragraphs\<close>; a paragraph longer than \<open>max_size\<close> is split into
      sentences, starting from an empty \<open>current_chunk\<close>\<close>
  "paragraph_loop max_size [] st = st"
| "paragraph_loop max_size (paragraph # rest) (segments, current_chunk) =
     (if int (length current_chunk) + int (length paragraph) + 2 \<le> max_size
      then paragraph_loop max_size rest (segments, current_chunk @ paragraph @ [NL, NL])
      else if int (length paragraph) > max_size
      then paragraph_loop max_size rest
             (sentence_loop max_size (split_sentences paragraph)
                (flush (segments, current_chunk), []))
      else paragraph_loop max_size rest
             (flush (segments, current_chunk), paragraph @ [NL, NL]))"

definition first_pass :: "string \<Rightarrow> int \<Rightarrow> string list" where
  \<comment> \<open>The segments before overlap is added.\<close>
  "first_pass text max_size = flush (paragraph_loop max_size (split_paragraphs text) ([], []))"

definition overlap_window :: "int \<Rightarrow> string \<Rightarrow> string" where
  \<comment> \<open>\<open>prev[-overlap:] if len(prev) > overlap else prev\<close>; called with \<open>overlap > 0\<close> only\<close>
  "overlap_window overlap prev =
     (if int (length prev) > overlap then drop (nat (int (length prev) - overlap)) prev
      else prev)"

definition overlap_text :: "int \<Rightarrow> string \<Rightarrow> string" where
  \<comment> \<open>the text taken from the previous segment \<open>prev\<close>: its window, cut after the
      window's first space when that space is not the window's first character\<close>
  "overlap_text overlap prev =
     (let window = overlap_window overlap prev;
          space_idx = find_char (CHR '' '') window
      in if space_idx > 0 then drop (nat (space_idx + 1)) window else window)"

definition overlap_chunk :: "int \<Rightarrow> int \<Rightarrow> string \<Rightarrow> string \<Rightarrow> string" where
  \<comment> \<open>One iteration of the second pass: the chunk built from \<open>segments[i - 1]\<close> and
      \<open>segments[i]\<close>.\<close>
  "overlap_chunk max_size overlap prev seg =
     (let chunk = overlap_text overlap prev @ '' '' @ seg;
          chunk = (if int (length chunk) > max_size then py_take max_size chunk else chunk)
      in strip chunk)"

fun overlap_loop :: "int \<Rightarrow> int \<Rightarrow> string \<Rightarrow> string list \<Rightarrow> string list" where
  \<comment> \<open>\<open>for i in range(1, len(segments))\<close>, given \<open>segments[i - 1]\<close> and \<open>segments[i:]\<close>\<close>
  "overlap_loop max_size overlap prev [] = []"
| "overlap_loop max_size overlap prev (seg # rest) =
     overlap_chunk max_size overlap prev seg # overlap_loop max_size overlap seg rest"

definition add_overlap :: "int \<Rightarrow> int \<Rightarrow> string list \<Rightarrow> string list" where
  \<comment> \<open>the second pass over the segments\<close>
  "add_overlap max_size overlap segments =
     (if overlap \<le> 0 \<or> length segments \<le> 1 then segments
      else hd segments # overlap_loop max_size overlap (hd segments) (tl segments))"

definition split_text :: "string \<Rightarrow> int \<Rightarrow> int \<Rightarrow> string list" where
  \<comment> \<open>\<open>_split_text(text, max_size, overlap)\<close>\<close>
  "split_text text max_size overlap =
     (if int (length text) \<le> max_size then [text]
      else add_overlap max_size overlap (first_pass text max_size))"

section \<open>Document identifiers: \<open>DocumentConverter._convert_single_document\<close>\<close>

function str_nat :: "nat \<Rightarrow> string" where
  \<comment> \<open>\<open>str(i)\<close> for a non-negative integer: its decimal digits\<close>
  "str_nat n =
     (if n < 10 then [char_of (48 + n)] else str_nat (n div 10) @ [char_of (48 + n mod 10)])"
  by pat_completeness auto

termination
  by (relation "measure id") auto

declare str_nat.simps [simp del]

definition basename :: "string \<Rightarrow> string" where
  \<comment> \<open>\<open>os.path.basename\<close>: what follows the last \<open>/\<close>\<close>
  "basename p = rev (takeWhile (\<lambda>c. c \<noteq> CHR ''/'') (rev p))"

definition splitext_root :: "string \<Rightarrow> string" where
  \<comment> \<open>\<open>os.path.splitext(filename)[0]\<close> for a name without \<open>/\<close>: the name up to its last
      dot, unless only dots come before that dot.\<close>
  "splitext_root p =
     (if CHR ''.'' \<in> set p
      then (let root = rev (tl (dropWhile (\<lambda>c. c \<noteq> CHR ''.'') (rev p)))
            in if filter (\<lambda>c. c \<noteq> CHR ''.'') root \<noteq> [] then root else p)
      else p)"

definition id_char_ok :: "char \<Rightarrow> bool" where
  \<comment> \<open>the character class \<open>[a-zA-Z0-9-_]\<close>\<close>
  "id_char_ok c =
     (let n = (of_char c :: nat)
      in (97 \<le> n \<and> n \<le> 122) \<or> (65 \<le> n \<and> n \<le> 90) \<or> (48 \<le> n \<and> n \<le> 57) \<or>
         c = CHR ''-'' \<or> c = CHR ''_'')"

fun collapse_hyphens :: "string \<Rightarrow> string" where
  \<comment> \<open>\<open>re.sub(r'-+', '-', s)\<close>\<close>
  "collapse_hyphens (x # y # rest) =
     (if x = CHR ''-'' \<and> y = CHR ''-'' then collapse_hyphens (y # rest)
      else x # collapse_hyphens (y # rest))"
| "collapse_hyphens s = s"

definition sanitize_id :: "string \<Rightarrow> nat \<Rightarrow> string" where
  \<comment> \<open>the identifier of chunk \<open>i\<close> of the file named \<open>filename\<close>\<close>
  "sanitize_id filename i =
     (let base_name = splitext_root filename;
          original_id = base_name @ ''_'' @ str_nat i;
          sanitized_id = map (\<lambda>c. if id_char_ok c then c else CHR ''-'') original_id;
          sanitized_id = collapse_hyphens sanitized_id;
          sanitized_id = strip_char (CHR ''-'') sanitized_id
      in if sanitized_id = [] then ''doc-'' @ str_nat i else sanitized_id)"

record document =
  doc_id :: string
  doc_content :: string  \<comment> \<open>the chunk; the source stores it base64-encoded\<close>
  doc_title :: string
  doc_source :: string
  doc_filename :: string
  chunk_index :: nat
  total_chunks :: nat

definition make_document :: "string \<Rightarrow> nat \<Rightarrow> nat \<times> string \<Rightarrow> document" where
  \<comment> \<open>the body of \<open>for i, chunk in enumerate(chunks)\<close>\<close>
  "make_document doc_path n ic =
     (case ic of (i, chunk) \<Rightarrow>
       (let filename = basename doc_path in
        \<lparr> doc_id = sanitize_id filename i,
          doc_content = chunk,
          doc_title = (if i = 0 then filename
                       else filename @ '' (Part '' @ str_nat (i + 1) @ '')''),
          doc_source = doc_path,
          doc_filename = filename,
          chunk_index = i,
          total_chunks = n \<rparr>))"

definition documents_of_text :: "string \<Rightarrow> string \<Rightarrow> document list" where
  \<comment> \<open>\<open>_convert_single_document\<close> after text extraction: \<open>text_content\<close> is the text
      extracted from the file at \<open>doc_path\<close>.\<close>
  "documents_of_text doc_path text_content =
     (let chunks = split_text text_content 1000 200
      in map (make_document doc_path (length chunks)) (enumerate 0 chunks))"

section \<open>Embedding Batcher: \<open>ProductImporter._generate_all_embeddings\<close>\<close>

type_synonym vector = "int list"
  \<comment> \<open>an embedding; its floating-point entries are kept abstract as integers\<close>

type_synonym embed_service = "string list \<Rightarrow> vector list option"
  \<comment> \<open>the embedding service called on the truncated texts of one batch: \<open>None\<close> when the
      call (or loading the model) raises\<close>

definition generate_embeddings_batch :: "embed_service \<Rightarrow> string list \<Rightarrow> vector option list" where
  "generate_embeddings_batch svc texts =
     (case svc (map (take 20000) texts) of
        Some result \<Rightarrow> map Some result
      | None \<Rightarrow> replicate (length texts) None)"

definition batch_size :: nat where
  "batch_size = 25"

function batches :: "'a list \<Rightarrow> 'a list list" where
  \<comment> \<open>\<open>[xs[i : i + batch_size] for i in range(0, len(xs), batch_size)]\<close>\<close>
  "batches xs = (if xs = [] then [] else take batch_size xs # batches (drop batch_size xs))"
  by pat_completeness auto

termination
  by (relation "measure length") (auto simp: batch_size_def)

declare batches.simps [simp del]

definition generate_all_embeddings :: "embed_service \<Rightarrow> string list \<Rightarrow> vector option list" where
  "generate_all_embeddings svc texts =
     concat (map (generate_embeddings_batch svc) (batches texts))"

definition length_preserving :: "embed_service \<Rightarrow> bool" where
  \<comment> \<open>the contract of the embedding service: a call that succeeds returns one vector
      per input text\<close>
  "length_preserving svc = (\<forall>ts vs. svc ts = Some vs \<longrightarrow> length vs = length ts)"

definition batch_of :: "nat \<Rightarrow> 'a list \<Rightarrow> 'a list" where
  \<comment> \<open>the sub-batch that holds position \<open>i\<close>\<close>
  "batch_of i xs = take batch_size (drop (batch_size * (i div batch_size)) xs)"

definition fails_on_bad :: embed_service where
  \<comment> \<open>a service whose call raises when the batch holds the text \<open>bad\<close>, and that
      otherwise returns one vector per text\<close>
  "fails_on_bad ts =
     (if ''bad'' \<in> set ts then None else Some (map (\<lambda>t. [int (length t)]) ts))"

definition is_digit :: "char \<Rightarrow> bool" where
  \<comment> \<open>the decimal digits \<open>0\<close> to \<open>9\<close>\<close>
  "is_digit c = (48 \<le> (of_char c :: nat) \<and> (of_char c :: nat) \<le> 57)"

definition id_suffix :: "nat \<Rightarrow> string" where
  \<comment> \<open>what \<open>original_id\<close> adds to the base name\<close>
  "id_suffix i = ''_'' @ str_nat i"

definition id_stem :: "string \<Rightarrow> string" where
  \<comment> \<open>the sanitized base name, without leading hyphens\<close>
  "id_stem filename = dropWhile (\<lambda>x. x = CHR ''-'')
     (collapse_hyphens (map (\<lambda>c. if id_char_ok c then c else CHR ''-'') (splitext_root filename)))"

section \<open>Words of a text, and chunks without their injected overlap\<close>

fun words_aux :: "string \<Rightarrow> string \<Rightarrow> string list" where
  \<comment> \<open>the second argument is read; the first is the word read so far\<close>
  "words_aux cur [] = (if cur = [] then [] else [cur])"
| "words_aux cur (c # cs) =
     (if is_space c then (if cur = [] then words_aux [] cs else cur # words_aux [] cs)
      else words_aux (cur @ [c]) cs)"

definition words :: "string \<Rightarrow> string list" where
  \<comment> \<open>the words of a text: its maximal runs of non-whitespace characters, in order
      (Python's \<open>text.split()\<close>)\<close>
  "words s = words_aux [] s"

fun join_sep :: "string \<Rightarrow> string list \<Rightarrow> string" where
  \<comment> \<open>\<open>sep.join(pieces)\<close>\<close>
  "join_sep sep [] = []"
| "join_sep sep [x] = x"
| "join_sep sep (x # y # rest) = x @ sep @ join_sep sep (y # rest)"

fun remove_overlaps :: "int \<Rightarrow> string \<Rightarrow> string list \<Rightarrow> string list \<Rightarrow> string list" where
  \<comment> \<open>the words of the chunks after the first, each without the words of the overlap
      text that the second pass put in front of it; \<open>prev\<close> is the segment before\<close>
  "remove_overlaps overlap prev (seg # segs) (chunk # chunks) =
     drop (length (words (overlap_text overlap prev))) (words chunk) @
     remove_overlaps overlap seg segs chunks"
| "remove_overlaps overlap prev segs chunks = []"

definition deoverlapped_words :: "string \<Rightarrow> int \<Rightarrow> int \<Rightarrow> string list" where
  \<comment> \<open>the words of the chunks of \<open>split_text\<close>, concatenated, ignoring injected overlap\<close>
  "deoverlapped_words text max_size overlap =
     (let segments = first_pass text max_size;
          chunks = split_text text max_size overlap
      in if int (length text) \<le> max_size \<or> overlap \<le> 0 \<or> length segments \<le> 1
         then concat (map words chunks)
         else words (hd chunks) @ remove_overlaps overlap (hd segments) (tl segments) (tl chunks))"

fun no_truncation :: "int \<Rightarrow> int \<Rightarrow> string \<Rightarrow> string list \<Rightarrow> bool" where
  \<comment> \<open>no chunk of the second pass is longer than \<open>max_size\<close> before it is cut\<close>
  "no_truncation max_size overlap prev [] = True"
| "no_truncation max_size overlap prev (seg # segs) =
     (int (length (overlap_text overlap prev @ '' '' @ seg)) \<le> max_size \<and>
      no_truncation max_size overlap seg segs)"

section \<open>Catalog Normalizer: \<open>ProductImporter\<close>\<close>

definition BASE_PRODUCT_ID :: int where
  "BASE_PRODUCT_ID = 9900000000001"

definition BASE_VARIANT_ID :: int where
  "BASE_VARIANT_ID = 9900000100001"

type_synonym row = "(string \<times> string) list"
  \<comment> \<open>a parsed row (\<open>Dict[str, str]\<close>): column name and value, in column order\<close>

definition lower_char :: "char \<Rightarrow> char" where
  "lower_char c =
     (let n = (of_char c :: nat)
      in if (65 \<le> n \<and> n \<le> 90) \<or> (192 \<le> n \<and> n \<le> 222 \<and> n \<noteq> 215) then char_of (n + 32)
         else c)"

definition lower :: "string \<Rightarrow> string" where
  \<comment> \<open>\<open>s.lower()\<close> on the code points below 256\<close>
  "lower s = map lower_char s"

definition row_lower :: "row \<Rightarrow> string \<Rightarrow> string option" where
  \<comment> \<open>\<open>{k.lower().strip(): v for k, v in row.items()}\<close>: a later column wins\<close>
  "row_lower r = map_of (rev (map (\<lambda>(k, v). (strip (lower k), v)) r))"

fun get_col :: "row \<Rightarrow> string list \<Rightarrow> string" where
  \<comment> \<open>\<open>_get_col(row, *keys)\<close>: the first non-empty stripped value among the columns
      \<open>keys\<close>, or the empty string\<close>
  "get_col r [] = []"
| "get_col r (key # keys) =
     (let val = strip (case row_lower r (strip (lower key)) of None \<Rightarrow> [] | Some v \<Rightarrow> v)
      in if val \<noteq> [] then val else get_col r keys)"

definition or_none :: "string \<Rightarrow> string option" where
  \<comment> \<open>\<open>s or None\<close>\<close>
  "or_none s = (if s = [] then None else Some s)"

definition or_default :: "string \<Rightarrow> string \<Rightarrow> string" where
  \<comment> \<open>\<open>s or d\<close>\<close>
  "or_default s d = (if s = [] then d else s)"

fun int_body_ok :: "string \<Rightarrow> bool" where
  \<comment> \<open>decimal digits, with single underscores between digits\<close>
  "int_body_ok [] = False"
| "int_body_ok [c] = is_digit c"
| "int_body_ok (c # d # rest) =
     (is_digit c \<and> (if d = CHR ''_'' then int_body_ok rest else int_body_ok (d # rest)))"

definition digits_value :: "string \<Rightarrow> int" where
  "digits_value ds = foldl (\<lambda>a c. 10 * a + (int (of_char c) - 48)) 0 (filter is_digit ds)"

definition py_int :: "string \<Rightarrow> int option" where
  \<comment> \<open>\<open>int(s)\<close>; \<open>None\<close> stands for \<open>ValueError\<close>\<close>
  "py_int s =
     (let t = strip s;
          body = (if t \<noteq> [] \<and> (hd t = CHR ''-'' \<or> hd t = CHR ''+'') then tl t else t)
      in if int_body_ok body
         then Some (if t \<noteq> [] \<and> hd t = CHR ''-'' then - digits_value body else digits_value body)
         else None)"

definition slug_char_ok :: "char \<Rightarrow> bool" where
  \<comment> \<open>the character class \<open>[a-z0-9]\<close>\<close>
  "slug_char_ok c =
     (let n = (of_char c :: nat) in (97 \<le> n \<and> n \<le> 122) \<or> (48 \<le> n \<and> n \<le> 57))"

fun slug_sub :: "string \<Rightarrow> string" where
  \<comment> \<open>\<open>re.sub(r"[^a-z0-9]+", "-", s)\<close>\<close>
  "slug_sub (x # y # rest) =
     (if \<not> slug_char_ok x \<and> \<not> slug_char_ok y then slug_sub (y # rest)
      else (if slug_char_ok x then x else CHR ''-'') # slug_sub (y # rest))"
| "slug_sub [x] = [if slug_char_ok x then x else CHR ''-'']"
| "slug_sub [] = []"

definition slugify :: "string \<Rightarrow> string" where
  \<comment> \<open>\<open>re.sub(r"[^a-z0-9]+", "-", title.lower()).strip("-")\<close>\<close>
  "slugify title = strip_char (CHR ''-'') (slug_sub (lower title))"

fun split1 :: "char \<Rightarrow> string \<Rightarrow> string \<Rightarrow> string list" where
  \<comment> \<open>\<open>s.split(sep)\<close> for a single-character separator\<close>
  "split1 sep cur [] = [cur]"
| "split1 sep cur (x # rest) =
     (if x = sep then cur # split1 sep [] rest else split1 sep (cur @ [x]) rest)"

subsection \<open>Shopify records\<close>

record shopify_option =
  opt_id :: int
  opt_name :: string
  opt_position :: nat
  opt_product_id :: "int option"
  opt_values :: "string list"

record shopify_variant =
  var_id :: int
  var_product_id :: int
  var_title :: string
  var_price :: string
  var_compare_at_price :: "string option"
  var_sku :: "string option"
  var_position :: nat
  var_option1 :: "string option"
  var_option2 :: "string option"
  var_option3 :: "string option"
  var_inventory_quantity :: int
  var_inventory_policy :: string

record shopify_image =
  img_id :: int
  img_product_id :: int
  img_position :: int
  img_src :: string
  img_alt :: string

record shopify_raw_data =
  raw_id :: int
  raw_title :: string
  raw_handle :: string
  raw_body_html :: string
  raw_vendor :: string
  raw_product_type :: string
  raw_tags :: string
  raw_status :: string
  raw_options :: "shopify_option list"
  raw_variants :: "shopify_variant list"
  raw_images :: "shopify_image list"
  raw_image :: "shopify_image option"

record shopify_product =
  shopify_product_id :: int
  sp_title :: string
  sp_vendor :: string
  sp_product_type :: string
  sp_handle :: string
  sp_status :: string
  sp_raw_data :: shopify_raw_data
  sp_body_text :: string
  sp_tags :: string

subsection \<open>Grouped export: \<open>_build_shopify_products_from_csv\<close>\<close>

type_synonym groups = "(string \<times> row list) list"
  \<comment> \<open>the dictionary \<open>groups\<close>, in insertion order\<close>

fun add_to_group :: "string \<Rightarrow> row \<Rightarrow> groups \<Rightarrow> groups" where
  \<comment> \<open>\<open>groups.setdefault(handle, []).append(row)\<close>\<close>
  "add_to_group h r [] = [(h, [r])]"
| "add_to_group h r ((k, rs) # g) =
     (if k = h then (k, rs @ [r]) # g else (k, rs) # add_to_group h r g)"

fun group_rows :: "row list \<Rightarrow> groups \<Rightarrow> groups" where
  "group_rows [] g = g"
| "group_rows (r # rows) g =
     (let h = get_col r [''Handle'']
      in if h = [] then group_rows rows g else group_rows rows (add_to_group h r g))"

definition option_name :: "row list \<Rightarrow> nat \<Rightarrow> string option" where
  \<comment> \<open>\<open>option_names.get(i)\<close>: the first non-empty \<open>Option<i> Name\<close> of the group\<close>
  "option_name rows i =
     (case filter (\<lambda>n. n \<noteq> []) (map (\<lambda>r. get_col r [''Option'' @ str_nat i @ '' Name'']) rows) of
        [] \<Rightarrow> None
      | n # _ \<Rightarrow> Some n)"

definition option_values :: "row list \<Rightarrow> nat \<Rightarrow> string list" where
  \<comment> \<open>\<open>sorted(option_values.get(pos, set()))\<close> for a position that has a name\<close>
  "option_values rows i =
     sort (remdups (filter (\<lambda>v. v \<noteq> [])
       (map (\<lambda>r. get_col r [''Option'' @ str_nat i @ '' Value'']) rows)))"

definition build_options :: "int \<Rightarrow> row list \<Rightarrow> shopify_option list" where
  "build_options product_id rows =
     concat (map (\<lambda>pos. case option_name rows pos of
                    None \<Rightarrow> []
                  | Some n \<Rightarrow> [\<lparr> opt_id = product_id * 10 + int pos, opt_name = n,
                               opt_position = pos, opt_product_id = Some product_id,
                               opt_values = option_values rows pos \<rparr>])
        [1, 2, 3])"

definition make_variant :: "int \<Rightarrow> nat \<Rightarrow> nat \<Rightarrow> row \<Rightarrow> string \<Rightarrow> shopify_variant" where
  "make_variant product_id idx variant_idx r price =
     (let opt1 = or_none (get_col r [''Option1 Value'']);
          opt2 = or_none (get_col r [''Option2 Value'']);
          opt3 = or_none (get_col r [''Option3 Value'']);
          parts = concat (map (\<lambda>v. case v of None \<Rightarrow> [] | Some x \<Rightarrow> [x]) [opt1, opt2, opt3])
      in \<lparr> var_id = BASE_VARIANT_ID + int idx * 100 + int variant_idx,
           var_product_id = product_id,
           var_title = (if parts \<noteq> [] then join_sep '' / '' parts else ''Default''),
           var_price = price,
           var_compare_at_price = or_none (get_col r [''Variant Compare At Price'']),
           var_sku = or_none (get_col r [''Variant SKU'']),
           var_position = variant_idx + 1,
           var_option1 = opt1, var_option2 = opt2, var_option3 = opt3,
           var_inventory_quantity =
             (case py_int (or_default (get_col r [''Variant Inventory Qty'']) ''0'') of
                Some q \<Rightarrow> q | None \<Rightarrow> 0),
           var_inventory_policy = or_default (get_col r [''Variant Inventory Policy'']) ''deny'' \<rparr>)"

fun build_variants :: "int \<Rightarrow> nat \<Rightarrow> nat \<Rightarrow> row list \<Rightarrow> shopify_variant list" where
  \<comment> \<open>the loop over \<open>group_rows\<close> that fills \<open>variants\<close>, from \<open>variant_idx\<close> on\<close>
  "build_variants product_id idx variant_idx [] = []"
| "build_variants product_id idx variant_idx (r # rows) =
     (let price = get_col r [''Variant Price'']
      in if price = [] then build_variants product_id idx variant_idx rows
         else make_variant product_id idx variant_idx r price #
              build_variants product_id idx (variant_idx + 1) rows)"

fun build_images :: "int \<Rightarrow> row list \<Rightarrow> shopify_image list \<Rightarrow> shopify_image list" where
  \<comment> \<open>the loop over \<open>group_rows\<close> that fills \<open>images\<close>\<close>
  "build_images product_id [] images = images"
| "build_images product_id (r # rows) images =
     (let img_src = get_col r [''Image Src'']
      in if img_src = [] then build_images product_id rows images
         else (let position =
                     (case py_int (or_default (get_col r [''Image Position'']) ''1'') of
                        Some p \<Rightarrow> p | None \<Rightarrow> int (length images) + 1)
               in build_images product_id rows
                    (images @ [\<lparr> img_id = product_id * 100 + position,
                                 img_product_id = product_id, img_position = position,
                                 img_src = img_src,
                                 img_alt = get_col r [''Image Alt Text''] \<rparr>])))"

definition first_image :: "shopify_image list \<Rightarrow> shopify_image option" where
  \<comment> \<open>\<open>images[0] if images else None\<close>\<close>
  "first_image images = (case images of [] \<Rightarrow> None | i # _ \<Rightarrow> Some i)"

definition grouped_product ::
  "(string \<Rightarrow> string) \<Rightarrow> nat \<times> string \<times> row list \<Rightarrow> shopify_product" where
  \<comment> \<open>the body of \<open>for idx, (handle, group_rows) in enumerate(groups.items())\<close>;
      \<open>strip_html\<close> stands for \<open>_strip_html\<close>\<close>
  "grouped_product strip_html g =
     (case g of (idx, handle, rows) \<Rightarrow>
       (let first = hd rows;
            product_id = BASE_PRODUCT_ID + int idx;
            title = get_col first [''Title''];
            body_html = get_col first [''Body (HTML)'', ''Body''];
            vendor = get_col first [''Vendor''];
            product_type = get_col first [''Type'', ''Product Type''];
            tags = get_col first [''Tags''];
            status = or_default (get_col first [''Status'']) ''active'';
            images = build_images product_id rows []
        in \<lparr> shopify_product_id = product_id, sp_title = title, sp_vendor = vendor,
             sp_product_type = product_type, sp_handle = handle, sp_status = status,
             sp_raw_data =
               \<lparr> raw_id = product_id, raw_title = title, raw_handle = handle,
                 raw_body_html = body_html, raw_vendor = vendor,
                 raw_product_type = product_type, raw_tags = tags, raw_status = status,
                 raw_options = build_options product_id rows,
                 raw_variants = build_variants product_id idx 0 rows,
                 raw_images = images, raw_image = first_image images \<rparr>,
             sp_body_text = strip_html body_html, sp_tags = tags \<rparr>))"

definition build_shopify_products_from_csv ::
  "(string \<Rightarrow> string) \<Rightarrow> row list \<Rightarrow> shopify_product list" where
  "build_shopify_products_from_csv strip_html rows =
     map (grouped_product strip_html) (enumerate 0 (group_rows rows []))"

subsection \<open>One row per product: \<open>_build_shopify_products_generic\<close>\<close>

definition generic_product ::
  "(string \<Rightarrow> string) \<Rightarrow> nat \<times> row \<Rightarrow> shopify_product list" where
  \<comment> \<open>the body of \<open>for idx, row in enumerate(rows)\<close>: no product for a row without title\<close>
  "generic_product strip_html ir =
     (case ir of (idx, r) \<Rightarrow>
       (let product_id = BASE_PRODUCT_ID + int idx;
            title = get_col r [''title'', ''name'', ''product_name'', ''product_title'']
        in if title = [] then []
           else (let handle = or_default (get_col r [''handle'', ''slug'', ''url'']) (slugify title);
                     price = or_default (get_col r [''price'', ''variant_price'', ''amount'']) ''0'';
                     description =
                       get_col r [''description'', ''body'', ''body_html'', ''body (html)''];
                     vendor = get_col r [''vendor'', ''brand''];
                     product_type = get_col r [''type'', ''product_type'', ''category''];
                     tags = get_col r [''tags''];
                     image = get_col r [''image'', ''image_url'', ''featured_image'', ''image_src''];
                     variant =
                       \<lparr> var_id = BASE_VARIANT_ID + int idx * 100, var_product_id = product_id,
                         var_title = ''Default'', var_price = price,
                         var_compare_at_price =
                           or_none (get_col r [''compare_at_price'', ''original_price'',
                                               ''compare_price'']),
                         var_sku = None, var_position = 1,
                         var_option1 = Some ''Default'', var_option2 = None,
                         var_option3 = None, var_inventory_quantity = 100,
                         var_inventory_policy = ''deny'' \<rparr>;
                     images =
                       (if image \<noteq> []
                        then [\<lparr> img_id = product_id * 100 + 1, img_product_id = product_id,
                                img_position = 1, img_src = image, img_alt = title \<rparr>]
                        else [])
                 in [\<lparr> shopify_product_id = product_id, sp_title = title, sp_vendor = vendor,
                        sp_product_type = product_type, sp_handle = handle,
                        sp_status = ''active'',
                        sp_raw_data =
                          \<lparr> raw_id = product_id, raw_title = title, raw_handle = handle,
                            raw_body_html = description, raw_vendor = vendor,
                            raw_product_type = product_type, raw_tags = tags,
                            raw_status = ''active'',
                            raw_options =
                              [\<lparr> opt_id = product_id * 10 + 1, opt_name = ''Title'',
                                 opt_position = 1, opt_product_id = None,
                                 opt_values = [''Default''] \<rparr>],
                            raw_variants = [variant], raw_images = images,
                            raw_image = first_image images \<rparr>,
                        sp_body_text = strip_html description, sp_tags = tags \<rparr>])))"

definition build_shopify_products_generic ::
  "(string \<Rightarrow> string) \<Rightarrow> row list \<Rightarrow> shopify_product list" where
  "build_shopify_products_generic strip_html rows =
     concat (map (generic_product strip_html) (enumerate 0 rows))"

definition has_handle :: "row list \<Rightarrow> bool" where
  \<comment> \<open>\<open>any("Handle" in row or "handle" in row for row in rows[:3])\<close>\<close>
  "has_handle rows =
     list_ex (\<lambda>r. ''Handle'' \<in> set (map fst r) \<or> ''handle'' \<in> set (map fst r)) (take 3 rows)"

definition shopify_products :: "(string \<Rightarrow> string) \<Rightarrow> row list \<Rightarrow> shopify_product list" where
  \<comment> \<open>the products \<open>_import_shopify\<close> builds from the rows\<close>
  "shopify_products strip_html rows =
     (if has_handle rows then build_shopify_products_from_csv strip_html rows
      else build_shopify_products_generic strip_html rows)"

subsection \<open>WooCommerce products: the first loop of \<open>_import_woocommerce\<close>\<close>

record wc_term =
  term_id :: nat
  term_name :: string

record wc_image =
  wci_id :: int
  wci_src :: string
  wci_alt :: string

record wc_raw_data =
  wcr_id :: int
  wcr_name :: string
  wcr_slug :: string
  wcr_description :: string
  wcr_short_description :: string
  wcr_sku :: string
  wcr_price :: string
  wcr_regular_price :: string
  wcr_sale_price :: string
  wcr_type :: string
  wcr_status :: string
  wcr_categories :: "wc_term list"
  wcr_tags :: "wc_term list"
  wcr_images :: "wc_image list"
  wcr_variations :: "int list"

record wc_product =
  wc_product_id :: int
  wc_name :: string
  wc_slug :: string
  wc_sku :: string
  wc_type :: string
  wc_status :: string
  wc_price :: string
  wc_regular_price :: string
  wc_sale_price :: string
  wc_categories :: "wc_term list"
  wc_tags :: "wc_term list"
  wc_raw_data :: wc_raw_data
  wc_body_text :: string
  wc_tags_str :: string

definition wc_terms :: "string \<Rightarrow> wc_term list" where
  \<comment> \<open>\<open>[{"id": i, "name": c.strip()} for i, c in enumerate(s.split(","))] if s else []\<close>\<close>
  "wc_terms s =
     (if s = [] then []
      else map (\<lambda>(i, c). \<lparr> term_id = i, term_name = strip c \<rparr>)
             (enumerate 0 (split1 (CHR '','') [] s)))"

definition woocommerce_product :: "(string \<Rightarrow> string) \<Rightarrow> nat \<times> row \<Rightarrow> wc_product list" where
  \<comment> \<open>the body of \<open>for idx, row in enumerate(rows)\<close>: no product for a row without name\<close>
  "woocommerce_product strip_html ir =
     (case ir of (idx, r) \<Rightarrow>
       (let product_id = BASE_PRODUCT_ID + int idx;
            name = get_col r [''name'', ''title'', ''product_name'', ''product_title'']
        in if name = [] then []
           else (let slug = or_default (get_col r [''slug'', ''handle'', ''url'']) (slugify name);
                     price = or_default
                       (get_col r [''price'', ''regular_price'', ''variant_price'', ''amount''])
                       ''0'';
                     sale_price = get_col r [''sale_price''];
                     description = get_col r [''description'', ''body'', ''body_html''];
                     sku = get_col r [''sku''];
                     product_type = or_default (get_col r [''type'', ''product_type'']) ''simple'';
                     categories_str = get_col r [''categories'', ''category''];
                     tags_str = get_col r [''tags''];
                     image = get_col r [''image'', ''image_url'', ''featured_image'', ''image_src''];
                     status = or_default (get_col r [''status'']) ''publish'';
                     categories = wc_terms categories_str;
                     tags = wc_terms tags_str;
                     images =
                       (if image \<noteq> []
                        then [\<lparr> wci_id = product_id * 100 + 1, wci_src = image, wci_alt = name \<rparr>]
                        else [])
                 in [\<lparr> wc_product_id = product_id, wc_name = name, wc_slug = slug,
                        wc_sku = sku, wc_type = product_type, wc_status = status,
                        wc_price = price, wc_regular_price = price,
                        wc_sale_price = sale_price, wc_categories = categories,
                        wc_tags = tags,
                        wc_raw_data =
                          \<lparr> wcr_id = product_id, wcr_name = name, wcr_slug = slug,
                            wcr_description = description, wcr_short_description = [],
                            wcr_sku = sku, wcr_price = price, wcr_regular_price = price,
                            wcr_sale_price = sale_price, wcr_type = product_type,
                            wcr_status = status, wcr_categories = categories,
                            wcr_tags = tags, wcr_images = images, wcr_variations = [] \<rparr>,
                        wc_body_text = strip_html description,
                        wc_tags_str = tags_str \<rparr>])))"

definition woocommerce_products :: "(string \<Rightarrow> string) \<Rightarrow> row list \<Rightarrow> wc_product list" where
  "woocommerce_products strip_html rows =
     concat (map (woocommerce_product strip_html) (enumerate 0 rows))"

subsection \<open>Squarespace products: the first loop of \<open>_import_squarespace\<close>\<close>

text \<open>
  Prices are floating-point numbers in the source. They are kept abstract: \<open>'f\<close> is the
  type of floats, \<open>to_float\<close> stands for \<open>float(s)\<close> (\<open>None\<close> for \<open>ValueError\<close>) and
  \<open>zero\<close> for \<open>0\<close>.
\<close>

record 'f sq_product =
  squarespace_product_id :: string
  sq_title :: string
  sq_description :: string
  sq_handle :: string
  sq_product_type :: string
  sq_sku :: string
  sq_price :: 'f
  sq_sale_price :: "'f option"
  sq_stock :: string
  sq_categories :: "string list"
  sq_tags :: "string list"
  sq_image_urls :: "string list"
  sq_body_text :: string
  sq_tags_str :: string

definition digits_and_dots :: "string \<Rightarrow> string" where
  \<comment> \<open>\<open>re.sub(r"[^\d.]", "", s)\<close>\<close>
  "digits_and_dots s = filter (\<lambda>c. is_digit c \<or> c = CHR ''.'') s"

definition sq_terms :: "string \<Rightarrow> string list" where
  \<comment> \<open>\<open>[c.strip() for c in s.split(",") if c.strip()] if s else []\<close>\<close>
  "sq_terms s =
     (if s = [] then []
      else filter (\<lambda>c. c \<noteq> []) (map strip (split1 (CHR '','') [] s)))"

definition squarespace_product ::
  "(string \<Rightarrow> string) \<Rightarrow> (string \<Rightarrow> 'f option) \<Rightarrow> 'f \<Rightarrow> nat \<times> row \<Rightarrow> 'f sq_product list" where
  "squarespace_product strip_html to_float zero ir =
     (case ir of (idx, r) \<Rightarrow>
       (let product_id_str = str_nat (nat (BASE_PRODUCT_ID + int idx));
            title = get_col r [''title'', ''name'', ''product_name'']
        in if title = [] then []
           else (let handle = or_default (get_col r [''handle'', ''slug'', ''url'']) (slugify title);
                     description = get_col r [''description'', ''body'', ''body_html''];
                     price_str = or_default (get_col r [''price'', ''regular_price'', ''amount''])
                                   ''0'';
                     sale_price_str = or_none (get_col r [''sale_price'']);
                     tags_str = get_col r [''tags''];
                     image = get_col r [''image'', ''image_url'', ''featured_image'', ''image_src'']
                 in [\<lparr> squarespace_product_id = product_id_str, sq_title = title,
                        sq_description = description, sq_handle = handle,
                        sq_product_type =
                          or_default (get_col r [''type'', ''product_type'']) ''PHYSICAL'',
                        sq_sku = get_col r [''sku''],
                        sq_price =
                          (case to_float (digits_and_dots price_str) of
                             Some f \<Rightarrow> f | None \<Rightarrow> zero),
                        sq_sale_price =
                          (case sale_price_str of
                             None \<Rightarrow> None
                           | Some s \<Rightarrow> to_float (digits_and_dots s)),
                        sq_stock =
                          or_default (get_col r [''stock'', ''inventory'', ''quantity''])
                            ''Unlimited'',
                        sq_categories = sq_terms (get_col r [''categories'', ''category'']),
                        sq_tags = sq_terms tags_str,
                        sq_image_urls = (if image \<noteq> [] then [image] else []),
                        sq_body_text = strip_html description,
                        sq_tags_str = tags_str \<rparr>])))"

definition squarespace_products ::
  "(string \<Rightarrow> string) \<Rightarrow> (string \<Rightarrow> 'f option) \<Rightarrow> 'f \<Rightarrow> row list \<Rightarrow> 'f sq_product list" where
  "squarespace_products strip_html to_float zero rows =
     concat (map (squarespace_product strip_html to_float zero) (enumerate 0 rows))"

subsection \<open>A grouped export of two rows with one handle\<close>

definition blue_shirt_rows :: "row list" where
  "blue_shirt_rows =
     [[(''Handle'', ''blue-shirt''), (''Title'', ''Blue Shirt''), (''Option1 Name'', ''Size''),
       (''Option1 Value'', ''S''), (''Variant Price'', ''10.00'')],
      [(''Handle'', ''blue-shirt''), (''Title'', ''''), (''Option1 Name'', ''''),
       (''Option1 Value'', ''M''), (''Variant Price'', ''12.00'')]]"

section \<open>The relational store\<close>

datatype exn = ValueError | StorageError | UploadError

record store_row =
  st_id :: nat
  st_merchant_id :: string
  st_key :: string  \<comment> \<open>\<open>shop_domain\<close>, \<open>store_url\<close> or \<open>site_url\<close>\<close>
  st_name :: string
  st_is_active :: bool

record 'p product_row =
  pr_id :: nat  \<comment> \<open>the serial \<open>id\<close> column\<close>
  pr_product :: 'p
  pr_store_id :: nat
  pr_merchant_id :: string
  pr_embedding :: "vector option"  \<comment> \<open>\<open>None\<close>: the vector column is not set\<close>

record 'f variant_row =
  vr_product_id :: nat
  vr_variant_id :: string
  vr_sku :: string
  vr_price :: 'f
  vr_stock :: string
  vr_option1_name :: string
  vr_option1_value :: string

record chunk_row =
  cr_merchant_id :: string
  cr_content :: string
  cr_title :: string
  cr_source :: string
  cr_chunk_index :: nat
  cr_total_chunks :: nat
  cr_embedding :: "vector option"

record 'f database =
  shopify_stores :: "store_row list"
  shopify_product_rows :: "shopify_product product_row list"
  woocommerce_stores :: "store_row list"
  woocommerce_product_rows :: "wc_product product_row list"
  squarespace_stores :: "store_row list"
  squarespace_product_rows :: "'f sq_product product_row list"
  squarespace_variant_rows :: "'f variant_row list"
  document_chunk_rows :: "chunk_row list"

text \<open>
  A connection holds the committed database and the state its open transaction sees.
  Statements change \<open>pending\<close> only; returning the connection to the pool leaves the
  committed state as the database.
\<close>

record 'f conn =
  committed :: "'f database"
  pending :: "'f database"

definition get_connection :: "'f database \<Rightarrow> 'f conn" where
  "get_connection db = \<lparr> committed = db, pending = db \<rparr>"

definition commit :: "'f conn \<Rightarrow> 'f conn" where
  "commit c = c\<lparr> committed := pending c \<rparr>"

definition rollback :: "'f conn \<Rightarrow> 'f conn" where
  "rollback c = c\<lparr> pending := committed c \<rparr>"

definition return_connection :: "'f conn \<Rightarrow> 'f database" where
  "return_connection c = committed c"

text \<open>
  The collaborators of an ingestion run: HTML stripping, float parsing, the embedding
  service, the text extractors of the binary formats (\<open>None\<close> when they raise), UTF-8
  decoding with \<open>errors='ignore'\<close> (which cannot raise), JSON rendering, the sequences
  behind the serial \<open>id\<close> columns, and which statements or uploads raise.

  The database record above holds the rows of the tables only. The value a sequence gives
  is not determined by these rows (a sequence is not rolled back with its transaction, and
  an INSERT that ends in a conflict has consumed a value), so it is left to the environment:
  when table \<open>t\<close> holds rows with the identifiers \<open>ids\<close>, its next row gets the identifier
  \<open>next_id env t ids + 1\<close>. Nothing is assumed of \<open>next_id\<close>; identifiers are positive.
\<close>

record 'f env =
  strip_html :: "string \<Rightarrow> string"
  to_float :: "string \<Rightarrow> 'f option"
  float_zero :: 'f
  embed :: embed_service
  extract_pdf_text :: "string \<Rightarrow> string option"
  extract_docx_text :: "string \<Rightarrow> string option"
  extract_html_text :: "string \<Rightarrow> string option"
  decode_utf8 :: "string \<Rightarrow> string"
  render_json :: "document \<Rightarrow> string"
  next_id :: "string \<Rightarrow> nat list \<Rightarrow> nat"
  shopify_insert_fails :: "shopify_product \<Rightarrow> bool"
  woocommerce_insert_fails :: "wc_product \<Rightarrow> bool"
  squarespace_insert_fails :: "'f sq_product \<Rightarrow> bool"
  chunk_insert_fails :: "chunk_row \<Rightarrow> bool"
  upload_fails :: "string \<Rightarrow> bool"

definition fresh_id :: "'f env \<Rightarrow> string \<Rightarrow> nat list \<Rightarrow> nat" where
  \<comment> \<open>the \<open>id\<close> a serial column gives to a new row: a positive sequence value\<close>
  "fresh_id env table ids = Suc (next_id env table ids)"

section \<open>Product import: \<open>ProductImporter.import_products\<close>\<close>

fun remove_all_aux :: "nat \<Rightarrow> string \<Rightarrow> string \<Rightarrow> string" where
  \<comment> \<open>the first argument counts the characters of a found pattern still to skip\<close>
  "remove_all_aux n pat [] = []"
| "remove_all_aux n pat (c # cs) =
     (if 0 < n then remove_all_aux (n - 1) pat cs
      else if pat \<noteq> [] \<and> prefix pat (c # cs) then remove_all_aux (length pat - 1) pat cs
      else c # remove_all_aux 0 pat cs)"

definition remove_all :: "string \<Rightarrow> string \<Rightarrow> string" where
  \<comment> \<open>\<open>s.replace(pat, "")\<close>\<close>
  "remove_all pat s = remove_all_aux 0 pat s"

definition shop_domain :: "string \<Rightarrow> string" where
  \<comment> \<open>\<open>shop_url.replace("https://", "").replace("http://", "").rstrip("/")\<close>\<close>
  "shop_domain shop_url =
     rev (dropWhile (\<lambda>c. c = CHR ''/'')
       (rev (remove_all ''http://'' (remove_all ''https://'' shop_url))))"

definition option_or :: "string option \<Rightarrow> string \<Rightarrow> string" where
  \<comment> \<open>\<open>x or d\<close> for an optional string \<open>x\<close>\<close>
  "option_or x d = (case x of None \<Rightarrow> d | Some s \<Rightarrow> if s = [] then d else s)"

definition select_store_id :: "(store_row \<Rightarrow> bool) \<Rightarrow> store_row list \<Rightarrow> exn + nat" where
  \<comment> \<open>\<open>SELECT id ... ; row = cursor.fetchone()\<close>; \<open>ValueError\<close> when there is no row\<close>
  "select_store_id P stores =
     (case filter P stores of [] \<Rightarrow> Inl ValueError | r # _ \<Rightarrow> Inr (st_id r))"

definition upsert_by_domain ::
  "(nat list \<Rightarrow> nat) \<Rightarrow> string \<Rightarrow> string \<Rightarrow> store_row list \<Rightarrow> exn + store_row list" where
  \<comment> \<open>\<open>INSERT ... ON CONFLICT (shop_domain) DO UPDATE SET merchant_id = ..., is_active = 1\<close>;
      the table has a second unique constraint, on \<open>merchant_id\<close>, that the statement
      does not handle\<close>
  "upsert_by_domain new_id merchant_id domain stores =
     (let stores' =
            (if list_ex (\<lambda>r. st_key r = domain) stores
             then map (\<lambda>r. if st_key r = domain
                            then r\<lparr> st_merchant_id := merchant_id, st_is_active := True \<rparr>
                            else r) stores
             else stores @ [\<lparr> st_id = new_id (map st_id stores), st_merchant_id = merchant_id,
                              st_key = domain, st_name = [], st_is_active = True \<rparr>])
      in if distinct (map st_merchant_id stores') then Inr stores' else Inl StorageError)"

definition insert_by_merchant ::
  "(nat list \<Rightarrow> nat) \<Rightarrow> string \<Rightarrow> string \<Rightarrow> string \<Rightarrow> store_row list \<Rightarrow> store_row list" where
  \<comment> \<open>\<open>INSERT ... ON CONFLICT (merchant_id) DO NOTHING\<close>\<close>
  "insert_by_merchant new_id merchant_id url name stores =
     (if list_ex (\<lambda>r. st_merchant_id r = merchant_id) stores then stores
      else stores @ [\<lparr> st_id = new_id (map st_id stores), st_merchant_id = merchant_id,
                       st_key = url, st_name = name, st_is_active = True \<rparr>])"

definition ensure_store_entry ::
  "'f env \<Rightarrow> 'f database \<Rightarrow> string \<Rightarrow> string \<Rightarrow> string option \<Rightarrow> string option \<Rightarrow>
   exn + ('f database \<times> nat)" where
  "ensure_store_entry env db merchant_id platform shop_url shop_name =
     (let shop_url = option_or shop_url (''https://'' @ merchant_id @ ''.com'');
          shop_name = option_or shop_name merchant_id
      in if platform = ''shopify''
         then (let domain = shop_domain shop_url
               in case upsert_by_domain (fresh_id env ''shopify_sync.shopify_stores'')
                         merchant_id domain (shopify_stores db) of
                    Inl e \<Rightarrow> Inl e
                  | Inr stores \<Rightarrow>
                      (case select_store_id (\<lambda>r. st_key r = domain) stores of
                         Inl e \<Rightarrow> Inl e
                       | Inr i \<Rightarrow> Inr (db\<lparr> shopify_stores := stores \<rparr>, i)))
         else if platform = ''woocommerce''
         then (let stores = insert_by_merchant
                              (fresh_id env ''woocommerce_sync.woocommerce_stores'')
                              merchant_id shop_url shop_name (woocommerce_stores db)
               in case select_store_id (\<lambda>r. st_merchant_id r = merchant_id) stores of
                    Inl e \<Rightarrow> Inl e
                  | Inr i \<Rightarrow> Inr (db\<lparr> woocommerce_stores := stores \<rparr>, i))
         else if platform = ''squarespace''
         then (let stores = insert_by_merchant
                              (fresh_id env ''squarespace_sync.squarespace_stores'')
                              merchant_id shop_url shop_name (squarespace_stores db)
               in case select_store_id (\<lambda>r. st_merchant_id r = merchant_id) stores of
                    Inl e \<Rightarrow> Inl e
                  | Inr i \<Rightarrow> Inr (db\<lparr> squarespace_stores := stores \<rparr>, i))
         else Inl ValueError)"

definition embed_text :: "string \<Rightarrow> string \<Rightarrow> string \<Rightarrow> string \<Rightarrow> string" where
  \<comment> \<open>\<open>f"{title} {body_text} {tags} {product_type}".strip()\<close>\<close>
  "embed_text title body tags product_type =
     strip (title @ '' '' @ body @ '' '' @ tags @ '' '' @ product_type)"

fun insert_products ::
  "(nat list \<Rightarrow> nat) \<Rightarrow> ('p \<Rightarrow> bool) \<Rightarrow> nat \<Rightarrow> string \<Rightarrow> ('p \<times> vector option) list \<Rightarrow>
   'p product_row list \<times> nat \<Rightarrow> exn + ('p product_row list \<times> nat)" where
  \<comment> \<open>\<open>for product, embedding in zip(products, embeddings)\<close>: one INSERT each, with the
      vector when there is one and without the vector column otherwise; the state is the
      table and the counter \<open>inserted\<close>; \<open>new_id\<close> gives the \<open>id\<close> of the new row\<close>
  "insert_products new_id fails store_id merchant_id [] st = Inr st"
| "insert_products new_id fails store_id merchant_id ((product, embedding) # rest) (tbl, inserted) =
     (if fails product then Inl StorageError
      else insert_products new_id fails store_id merchant_id rest
             (tbl @ [\<lparr> pr_id = new_id (map pr_id tbl), pr_product = product,
                        pr_store_id = store_id, pr_merchant_id = merchant_id,
                        pr_embedding = embedding \<rparr>],
              inserted + 1))"

definition import_shopify ::
  "'f env \<Rightarrow> 'f database \<Rightarrow> string \<Rightarrow> nat \<Rightarrow> row list \<Rightarrow> exn + ('f database \<times> nat)" where
  "import_shopify env db merchant_id store_id rows =
     (let db = db\<lparr> shopify_product_rows :=
                    filter (\<lambda>r. pr_merchant_id r \<noteq> merchant_id) (shopify_product_rows db) \<rparr>;
          products = shopify_products (strip_html env) rows
      in if products = [] then Inr (db, 0)
         else (let embed_texts =
                     map (\<lambda>p. embed_text (sp_title p) (sp_body_text p) (sp_tags p)
                                 (sp_product_type p)) products;
                   embeddings = generate_all_embeddings (embed env) embed_texts
               in case insert_products (fresh_id env ''shopify_sync.products'')
                         (shopify_insert_fails env) store_id merchant_id
                         (zip products embeddings) (shopify_product_rows db, 0) of
                    Inl e \<Rightarrow> Inl e
                  | Inr (tbl, inserted) \<Rightarrow> Inr (db\<lparr> shopify_product_rows := tbl \<rparr>, inserted)))"

definition import_woocommerce ::
  "'f env \<Rightarrow> 'f database \<Rightarrow> string \<Rightarrow> nat \<Rightarrow> row list \<Rightarrow> exn + ('f database \<times> nat)" where
  "import_woocommerce env db merchant_id store_id rows =
     (let db = db\<lparr> woocommerce_product_rows :=
                    filter (\<lambda>r. pr_merchant_id r \<noteq> merchant_id) (woocommerce_product_rows db) \<rparr>;
          products = woocommerce_products (strip_html env) rows
      in if products = [] then Inr (db, 0)
         else (let embed_texts =
                     map (\<lambda>p. embed_text (wc_name p) (wc_body_text p) (wc_tags_str p) (wc_type p))
                       products;
                   embeddings = generate_all_embeddings (embed env) embed_texts
               in case insert_products (fresh_id env ''woocommerce_sync.products'')
                         (woocommerce_insert_fails env) store_id merchant_id
                         (zip products embeddings) (woocommerce_product_rows db, 0) of
                    Inl e \<Rightarrow> Inl e
                  | Inr (tbl, inserted) \<Rightarrow>
                      Inr (db\<lparr> woocommerce_product_rows := tbl \<rparr>, inserted)))"

definition select_product_id :: "string \<Rightarrow> string \<Rightarrow> 'f sq_product product_row list \<Rightarrow> nat option" where
  \<comment> \<open>\<open>SELECT id FROM squarespace_products WHERE squarespace_product_id = ... AND
      merchant_id = ...\<close>, then \<open>row[0] if row else None\<close>\<close>
  "select_product_id product_id merchant_id tbl =
     (case filter (\<lambda>r. squarespace_product_id (pr_product r) = product_id \<and>
                        pr_merchant_id r = merchant_id) tbl of
        [] \<Rightarrow> None
      | r # _ \<Rightarrow> Some (pr_id r))"

fun insert_squarespace ::
  "(nat list \<Rightarrow> nat) \<Rightarrow> ('f sq_product \<Rightarrow> bool) \<Rightarrow> nat \<Rightarrow> string \<Rightarrow>
   ('f sq_product \<times> vector option) list \<Rightarrow>
   'f sq_product product_row list \<times> 'f variant_row list \<times> nat \<Rightarrow>
   exn + ('f sq_product product_row list \<times> 'f variant_row list \<times> nat)" where
  \<comment> \<open>the insert loop of \<open>_import_squarespace\<close>: the product row, then a default variant
      row when the product's \<open>id\<close> is found and not zero\<close>
  "insert_squarespace new_id fails store_id merchant_id [] st = Inr st"
| "insert_squarespace new_id fails store_id merchant_id ((product, embedding) # rest)
     (tbl, variants, inserted) =
     (if fails product then Inl StorageError
      else (let tbl = tbl @ [\<lparr> pr_id = new_id (map pr_id tbl), pr_product = product,
                                pr_store_id = store_id, pr_merchant_id = merchant_id,
                                pr_embedding = embedding \<rparr>];
                db_product_id =
                  select_product_id (squarespace_product_id product) merchant_id tbl;
                variants =
                  (case db_product_id of
                     None \<Rightarrow> variants
                   | Some i \<Rightarrow>
                       if i = 0 then variants
                       else variants @
                         [\<lparr> vr_product_id = i,
                            vr_variant_id = ''var-'' @ squarespace_product_id product,
                            vr_sku = sq_sku product, vr_price = sq_price product,
                            vr_stock = sq_stock product, vr_option1_name = ''Default'',
                            vr_option1_value = ''Default'' \<rparr>])
            in insert_squarespace new_id fails store_id merchant_id rest
                 (tbl, variants, inserted + 1)))"

definition import_squarespace ::
  "'f env \<Rightarrow> 'f database \<Rightarrow> string \<Rightarrow> nat \<Rightarrow> row list \<Rightarrow> exn + ('f database \<times> nat)" where
  "import_squarespace env db merchant_id store_id rows =
     (let deleted = map pr_id (filter (\<lambda>r. pr_merchant_id r = merchant_id)
                                 (squarespace_product_rows db));
          db = db\<lparr> squarespace_product_rows :=
                    filter (\<lambda>r. pr_merchant_id r \<noteq> merchant_id) (squarespace_product_rows db),
                  squarespace_variant_rows :=
                    filter (\<lambda>v. vr_product_id v \<notin> set deleted) (squarespace_variant_rows db) \<rparr>;
          products = squarespace_products (strip_html env) (to_float env) (float_zero env) rows
      in if products = [] then Inr (db, 0)
         else (let embed_texts =
                     map (\<lambda>p. embed_text (sq_title p) (sq_body_text p) (sq_tags_str p)
                                 (sq_product_type p)) products;
                   embeddings = generate_all_embeddings (embed env) embed_texts
               in case insert_squarespace (fresh_id env ''squarespace_sync.squarespace_products'')
                         (squarespace_insert_fails env) store_id merchant_id
                         (zip products embeddings)
                         (squarespace_product_rows db, squarespace_variant_rows db, 0) of
                    Inl e \<Rightarrow> Inl e
                  | Inr (tbl, variants, inserted) \<Rightarrow>
                      Inr (db\<lparr> squarespace_product_rows := tbl,
                               squarespace_variant_rows := variants \<rparr>, inserted)))"




section \<open>Document ingestion: \<open>DocumentConverter.convert_documents\<close>\<close>

definition chunk_row_of :: "string \<Rightarrow> document \<Rightarrow> vector \<Rightarrow> chunk_row" where
  \<comment> \<open>the row of the INSERT into \<open>document_chunks\<close>\<close>
  "chunk_row_of merchant_id chunk embedding =
     \<lparr> cr_merchant_id = merchant_id, cr_content = doc_content chunk,
       cr_title = doc_title chunk, cr_source = doc_source chunk,
       cr_chunk_index = chunk_index chunk, cr_total_chunks = total_chunks chunk,
       cr_embedding = Some embedding \<rparr>"

fun store_batch ::
  "(chunk_row \<Rightarrow> bool) \<Rightarrow> string \<Rightarrow> (document \<times> vector option) list \<Rightarrow>
   chunk_row list \<times> nat \<Rightarrow> nat + (chunk_row list \<times> nat)" where
  \<comment> \<open>\<open>for chunk, embedding in zip(batch, embeddings)\<close>; the state is the table and
      the counter \<open>stored\<close>; \<open>Inl stored\<close> when an INSERT raises\<close>
  "store_batch fails merchant_id [] st = Inr st"
| "store_batch fails merchant_id ((chunk, embedding) # rest) (tbl, stored) =
     (case embedding of
        None \<Rightarrow> store_batch fails merchant_id rest (tbl, stored)
      | Some e \<Rightarrow>
          if fails (chunk_row_of merchant_id chunk e) then Inl stored
          else store_batch fails merchant_id rest
                 (tbl @ [chunk_row_of merchant_id chunk e], stored + 1))"

fun store_batches ::
  "embed_service \<Rightarrow> (chunk_row \<Rightarrow> bool) \<Rightarrow> string \<Rightarrow> document list list \<Rightarrow>
   chunk_row list \<times> nat \<Rightarrow> nat + (chunk_row list \<times> nat)" where
  \<comment> \<open>\<open>for i in range(0, len(chunk_data), batch_size)\<close>\<close>
  "store_batches svc fails merchant_id [] st = Inr st"
| "store_batches svc fails merchant_id (batch # rest) st =
     (let embeddings = generate_embeddings_batch svc (map doc_content batch)
      in case store_batch fails merchant_id (zip batch embeddings) st of
           Inl stored \<Rightarrow> Inl stored
         | Inr st' \<Rightarrow> store_batches svc fails merchant_id rest st')"

definition store_document_embeddings ::
  "'f env \<Rightarrow> 'f database \<Rightarrow> string \<Rightarrow> document list \<Rightarrow> 'f database \<times> (exn + nat)" where
  \<comment> \<open>the result is the database after the call and what the call returned (\<open>Inr\<close>) or
      raised (\<open>Inl\<close>); every exception of the body is caught by the handler, which rolls
      back and returns \<open>stored\<close>\<close>
  "store_document_embeddings env db merchant_id documents =
     (let conn = get_connection db;
          conn = conn\<lparr> pending := (pending conn)\<lparr> document_chunk_rows :=
                   filter (\<lambda>r. cr_merchant_id r \<noteq> merchant_id)
                     (document_chunk_rows (pending conn)) \<rparr> \<rparr>;
          chunk_data = filter (\<lambda>d. strip (doc_content d) \<noteq> []) documents
      in if chunk_data = [] then (return_connection (commit conn), Inr 0)
         else (case store_batches (embed env) (chunk_insert_fails env) merchant_id
                      (batches chunk_data) (document_chunk_rows (pending conn), 0) of
                 Inr (tbl, stored) \<Rightarrow>
                   (return_connection
                      (commit (conn\<lparr> pending := (pending conn)\<lparr> document_chunk_rows := tbl \<rparr> \<rparr>)),
                    Inr stored)
               | Inl stored \<Rightarrow> (return_connection (rollback conn), Inr stored)))"

type_synonym blob_store = "string \<rightharpoonup> string"
  \<comment> \<open>the blob store: object path to content\<close>

definition extract_text :: "'f env \<Rightarrow> string \<Rightarrow> string \<Rightarrow> string option" where
  \<comment> \<open>the text of a downloaded file, by the ending of its path; \<open>None\<close> when the extractor
      raises; a \<open>.txt\<close> file and a file of unknown type are decoded, which cannot raise\<close>
  "extract_text env doc_path file_content =
     (if suffix ''.pdf'' doc_path then extract_pdf_text env file_content
      else if suffix ''.docx'' doc_path then extract_docx_text env file_content
      else if suffix ''.txt'' doc_path then Some (decode_utf8 env file_content)
      else if suffix ''.html'' doc_path \<or> suffix ''.htm'' doc_path
      then extract_html_text env file_content
      else Some (decode_utf8 env file_content))"

definition convert_single_document ::
  "'f env \<Rightarrow> blob_store \<Rightarrow> string \<Rightarrow> exn + document list" where
  \<comment> \<open>download, extract the text, chunk; a failing download or extraction raises\<close>
  "convert_single_document env gcs doc_path =
     (case gcs doc_path of
        None \<Rightarrow> Inl StorageError
      | Some file_content \<Rightarrow>
          (case extract_text env doc_path file_content of
             None \<Rightarrow> Inl ValueError
           | Some text_content \<Rightarrow> Inr (documents_of_text doc_path text_content)))"

fun convert_loop ::
  "'f env \<Rightarrow> blob_store \<Rightarrow> string list \<Rightarrow> document list \<times> string list \<Rightarrow>
   document list \<times> string list" where
  \<comment> \<open>\<open>for doc_path in document_paths\<close>; the state is \<open>(all_documents, skipped_files)\<close>\<close>
  "convert_loop env gcs [] st = st"
| "convert_loop env gcs (doc_path # rest) (all_documents, skipped_files) =
     (if gcs doc_path = None
      then convert_loop env gcs rest (all_documents, skipped_files @ [doc_path])
      else (case convert_single_document env gcs doc_path of
              Inr documents \<Rightarrow>
                convert_loop env gcs rest (all_documents @ documents, skipped_files)
            | Inl e \<Rightarrow> convert_loop env gcs rest (all_documents, skipped_files @ [doc_path])))"

definition create_ndjson :: "'f env \<Rightarrow> document list \<Rightarrow> string" where
  \<comment> \<open>one JSON document per line\<close>
  "create_ndjson env documents = join_sep [NL] (map (render_json env) documents)"

record summary =
  ndjson_path :: "string option"
  document_count :: nat
  chunks_stored :: "nat option"  \<comment> \<open>\<open>None\<close>: the key is absent\<close>
  skipped_files :: "string list option"

definition convert_documents ::
  "'f env \<Rightarrow> blob_store \<Rightarrow> 'f database \<Rightarrow> string \<Rightarrow> string list \<Rightarrow>
   blob_store \<times> 'f database \<times> (exn + summary)" where
  \<comment> \<open>the result is the blob store and the database after the call, and what the call
      returned or raised\<close>
  "convert_documents env gcs db merchant_id document_paths =
     (case convert_loop env gcs document_paths ([], []) of
        (all_documents, skipped) \<Rightarrow>
          (let ndjson_content = create_ndjson env all_documents
           in if all_documents = []
              then (gcs, db,
                    Inr \<lparr> ndjson_path = None, document_count = 0, chunks_stored = None,
                          skipped_files = Some skipped \<rparr>)
              else (let path = ''merchants/'' @ merchant_id @ ''/training_files/documents.ndjson''
                    in if upload_fails env path then (gcs, db, Inl UploadError)
                       else (case store_document_embeddings env db merchant_id all_documents of
                               (db', Inl e) \<Rightarrow> (gcs(path \<mapsto> ndjson_content), db', Inl e)
                             | (db', Inr stored) \<Rightarrow>
                                 (gcs(path \<mapsto> ndjson_content), db',
                                  Inr \<lparr> ndjson_path = Some path,
                                        document_count = length all_documents,
                                        chunks_stored = Some stored,
                                        skipped_files =
                                          (if skipped \<noteq> [] then Some skipped else None) \<rparr>)))))"

section \<open>A concrete environment and database\<close>

definition demo_env :: "int env" where
  \<comment> \<open>the embedding call raises for a batch holding the text \<open>bad\<close>; the extraction of a
      PDF file raises for the content \<open>corrupt\<close>; the INSERT of a chunk with content \<open>beta\<close>
      raises; every sequence gives the value after the largest identifier in its table\<close>
  "demo_env =
     \<lparr> strip_html = (\<lambda>s. s), to_float = (\<lambda>s. None), float_zero = 0, embed = fails_on_bad,
       extract_pdf_text = (\<lambda>c. if c = ''corrupt'' then None else Some c),
       extract_docx_text = Some, extract_html_text = Some, decode_utf8 = (\<lambda>c. c),
       render_json = doc_id, next_id = (\<lambda>t ids. fold max ids 0),
       shopify_insert_fails = (\<lambda>p. False), woocommerce_insert_fails = (\<lambda>p. False),
       squarespace_insert_fails = (\<lambda>p. False),
       chunk_insert_fails = (\<lambda>r. cr_content r = ''beta''),
       upload_fails = (\<lambda>p. False) \<rparr>"

definition empty_db :: "int database" where
  "empty_db =
     \<lparr> shopify_stores = [], shopify_product_rows = [], woocommerce_stores = [],
       woocommerce_product_rows = [], squarespace_stores = [], squarespace_product_rows = [],
       squarespace_variant_rows = [], document_chunk_rows = [] \<rparr>"

definition old_chunk :: chunk_row where
  "old_chunk =
     \<lparr> cr_merchant_id = ''m1'', cr_content = ''old'', cr_title = ''old.txt'',
       cr_source = ''kb/old.txt'', cr_chunk_index = 0, cr_total_chunks = 1,
       cr_embedding = Some [3] \<rparr>"

definition old_db :: "int database" where
  \<comment> \<open>merchant \<open>m1\<close> has one stored chunk\<close>
  "old_db = empty_db\<lparr> document_chunk_rows := [old_chunk] \<rparr>"

section \<open>Auxiliary notions and concrete inputs\<close>


definition stored_chunks :: "string \<Rightarrow> (document \<times> vector option) list \<Rightarrow> chunk_row list" where
  \<comment> \<open>the rows of the chunks that have an embedding, in order\<close>
  "stored_chunks merchant_id pairs =
     concat (map (\<lambda>(c, e). case e of None \<Rightarrow> [] | Some v \<Rightarrow> [chunk_row_of merchant_id c v]) pairs)"

definition rows_of_handle :: "string \<Rightarrow> row list \<Rightarrow> row list" where
  \<comment> \<open>the rows whose \<open>Handle\<close> column holds the non-empty handle \<open>h\<close>\<close>
  "rows_of_handle h rows = filter (\<lambda>r. h \<noteq> [] \<and> get_col r [''Handle''] = h) rows"

definition hat_rows :: "row list" where
  \<comment> \<open>a grouped export whose only row has no \<open>Variant Price\<close>\<close>
  "hat_rows = [[(''Handle'', ''hat''), (''Title'', ''Hat'')]]"

definition mug :: "int sq_product" where
  \<comment> \<open>a Squarespace product\<close>
  "mug = \<lparr> squarespace_product_id = ''9900000000001'', sq_title = ''Mug'', sq_description = [],
           sq_handle = ''mug'', sq_product_type = ''PHYSICAL'', sq_sku = [], sq_price = 0,
           sq_sale_price = None, sq_stock = ''Unlimited'', sq_categories = [], sq_tags = [],
           sq_image_urls = [], sq_body_text = [], sq_tags_str = [] \<rparr>"

definition bad_rows :: "row list" where
  \<comment> \<open>one row with a title only; the embedding call for its text \<open>bad\<close> raises\<close>
  "bad_rows = [[(''title'', ''bad'')]]"

definition note_doc :: document where
  \<comment> \<open>a document chunk\<close>
  "note_doc = \<lparr> doc_id = ''note_0'', doc_content = ''note'', doc_title = ''note.txt'',
                doc_source = ''kb/note.txt'', doc_filename = ''note.txt'', chunk_index = 0,
                total_chunks = 1 \<rparr>"

definition chunk_pairs :: "embed_service \<Rightarrow> document list \<Rightarrow> (document \<times> vector option) list" where
  \<comment> \<open>every chunk with the embedding its sub-batch call gives it\<close>
  "chunk_pairs svc chunk_data =
     concat (map (\<lambda>b. zip b (generate_embeddings_batch svc (map doc_content b))) (batches chunk_data))"


definition down_env :: "int env" where
  \<comment> \<open>as \<open>demo_env\<close>, with every call of the embedding service raising\<close>
  "down_env = demo_env\<lparr> embed := (\<lambda>ts. None) \<rparr>"


definition gap_rows :: "row list" where
  \<comment> \<open>a row without title, then a row with a title\<close>
  "gap_rows = [[(''title'', '''')], [(''title'', ''bad'')]]"

definition rows_with :: "string list \<Rightarrow> row list \<Rightarrow> nat list" where
  \<comment> \<open>the indices of the rows that have a non-empty value in one of the columns \<open>keys\<close>\<close>
  "rows_with keys rows = filter (\<lambda>i. get_col (rows ! i) keys \<noteq> []) [0..<length rows]"

definition handles_in_order :: "row list \<Rightarrow> string list" where
  \<comment> \<open>the non-empty handles of the rows, each once, in the order of their first row\<close>
  "handles_in_order rows =
     rev (remdups (rev (filter (\<lambda>h. h \<noteq> []) (map (\<lambda>r. get_col r [''Handle'']) rows))))"

definition merchant_rows :: "string \<Rightarrow> 'p product_row list \<Rightarrow> 'p product_row list" where
  \<comment> \<open>the rows of merchant \<open>m\<close> in a product table\<close>
  "merchant_rows m tbl = filter (\<lambda>r. pr_merchant_id r = m) tbl"

definition other_rows :: "string \<Rightarrow> 'p product_row list \<Rightarrow> 'p product_row list" where
  \<comment> \<open>the rows of the other merchants in a product table\<close>
  "other_rows m tbl = filter (\<lambda>r. pr_merchant_id r \<noteq> m) tbl"

definition shopify_embeddings :: "'f env \<Rightarrow> row list \<Rightarrow> vector option list" where
  \<comment> \<open>what the Embedding Batcher returns for the embed texts of the built Shopify products\<close>
  "shopify_embeddings env rows =
     generate_all_embeddings (embed env)
       (map (\<lambda>p. embed_text (sp_title p) (sp_body_text p) (sp_tags p) (sp_product_type p))
          (shopify_products (strip_html env) rows))"

definition woocommerce_embeddings :: "'f env \<Rightarrow> row list \<Rightarrow> vector option list" where
  \<comment> \<open>the same for the built WooCommerce products\<close>
  "woocommerce_embeddings env rows =
     generate_all_embeddings (embed env)
       (map (\<lambda>p. embed_text (wc_name p) (wc_body_text p) (wc_tags_str p) (wc_type p))
          (woocommerce_products (strip_html env) rows))"

definition squarespace_items :: "'f env \<Rightarrow> row list \<Rightarrow> 'f sq_product list" where
  \<comment> \<open>the products \<open>_import_squarespace\<close> builds from the rows\<close>
  "squarespace_items env rows =
     squarespace_products (strip_html env) (to_float env) (float_zero env) rows"

definition squarespace_embeddings :: "'f env \<Rightarrow> row list \<Rightarrow> vector option list" where
  \<comment> \<open>the same for the built Squarespace products\<close>
  "squarespace_embeddings env rows =
     generate_all_embeddings (embed env)
       (map (\<lambda>p. embed_text (sq_title p) (sq_body_text p) (sq_tags_str p) (sq_product_type p))
          (squarespace_items env rows))"

definition cascade_kept :: "string \<Rightarrow> 'f database \<Rightarrow> 'f variant_row list" where
  \<comment> \<open>the Squarespace variant rows that do not belong to a product row of merchant \<open>m\<close>\<close>
  "cascade_kept m db =
     filter (\<lambda>v. vr_product_id v \<notin> pr_id ` set (merchant_rows m (squarespace_product_rows db)))
       (squarespace_variant_rows db)"

section \<open>Properties of the Embedding Batcher\<close>

lemma batches_unfold:
  "xs \<noteq> [] \<Longrightarrow> batches xs = take batch_size xs # batches (drop batch_size xs)"
  by (subst batches.simps) simp

lemma batches_Nil: "batches [] = []"
  by (subst batches.simps) simp

lemma concat_batches: "concat (batches xs) = xs"
proof (induction xs rule: batches.induct)
  case (1 xs)
  show ?case
  proof (cases "xs = []")
    case True
    then show ?thesis by (simp add: batches_Nil)
  next
    case False
    with 1 show ?thesis by (simp add: batches_unfold)
  qed
qed

lemma batches_sizes: "b \<in> set (batches xs) \<Longrightarrow> 0 < length b \<and> length b \<le> batch_size"
proof (induction xs rule: batches.induct)
  case (1 xs)
  show ?case
  proof (cases "xs = []")
    case True
    with 1(2) show ?thesis by (simp add: batches_Nil)
  next
    case False
    have "batches xs = take batch_size xs # batches (drop batch_size xs)"
      using False by (rule batches_unfold)
    with 1(2) have "b = take batch_size xs \<or> b \<in> set (batches (drop batch_size xs))"
      by simp
    then show ?thesis
    proof
      assume "b = take batch_size xs"
      then show ?thesis using False by (simp add: batch_size_def)
    next
      assume "b \<in> set (batches (drop batch_size xs))"
      then show ?thesis using 1(1)[OF False] by simp
    qed
  qed
qed

lemma generate_embeddings_batch_length:
  "length_preserving svc \<Longrightarrow> length (generate_embeddings_batch svc b) = length b"
  by (auto simp: generate_embeddings_batch_def length_preserving_def split: option.splits)

lemma generate_embeddings_batch_nth:
  "i < length b \<Longrightarrow> length_preserving svc \<Longrightarrow>
   generate_embeddings_batch svc b ! i =
     (case svc (map (take 20000) b) of None \<Rightarrow> None | Some vs \<Rightarrow> Some (vs ! i))"
  by (auto simp: generate_embeddings_batch_def length_preserving_def split: option.splits)

lemma generate_all_unfold:
  "xs \<noteq> [] \<Longrightarrow> generate_all_embeddings svc xs =
     generate_embeddings_batch svc (take batch_size xs) @
     generate_all_embeddings svc (drop batch_size xs)"
  by (simp add: generate_all_embeddings_def batches_unfold)

lemma generate_all_length:
  "length_preserving svc \<Longrightarrow> length (generate_all_embeddings svc xs) = length xs"
proof (induction xs rule: batches.induct)
  case (1 xs)
  show ?case
  proof (cases "xs = []")
    case True
    then show ?thesis by (simp add: generate_all_embeddings_def batches_Nil)
  next
    case False
    with 1 show ?thesis
      by (simp add: generate_all_unfold generate_embeddings_batch_length)
  qed
qed

lemma generate_all_nth:
  "length_preserving svc \<Longrightarrow> i < length xs \<Longrightarrow>
   generate_all_embeddings svc xs ! i =
     (case svc (map (take 20000) (batch_of i xs)) of
        None \<Rightarrow> None | Some vs \<Rightarrow> Some (vs ! (i mod batch_size)))"
proof (induction xs arbitrary: i rule: batches.induct)
  case (1 xs)
  then have ne: "xs \<noteq> []" by auto
  have bs: "batch_size = 25" by (simp add: batch_size_def)
  show ?case
  proof (cases "i < batch_size")
    case True
    then have "i < length (take batch_size xs)" using 1(3) by simp
    moreover have "batch_of i xs = take batch_size xs"
      using True by (simp add: batch_of_def)
    ultimately show ?thesis
      using True 1(2)
      by (simp add: generate_all_unfold[OF ne] nth_append generate_embeddings_batch_length
          generate_embeddings_batch_nth del: length_take split: option.splits)
  next
    case False
    then have ge: "batch_size \<le> i" by simp
    then have len: "length (take batch_size xs) = batch_size" using 1(3) by simp
    have lt: "i - batch_size < length (drop batch_size xs)" using 1(3) ge by simp
    define k where "k = i - batch_size"
    have ik: "i = k + 25" using ge bs by (simp add: k_def)
    have d: "i div 25 = Suc (k div 25)" by (simp add: ik)
    have m: "k mod batch_size = i mod batch_size" by (simp add: ik bs)
    have b: "batch_of k (drop batch_size xs) = batch_of i xs"
      by (simp add: batch_of_def bs d add.commute)
    have "generate_all_embeddings svc xs ! i =
          generate_all_embeddings svc (drop batch_size xs) ! (i - batch_size)"
      using False 1(2) len
      by (simp add: generate_all_unfold[OF ne] nth_append generate_embeddings_batch_length
          del: length_take)
    also have "\<dots> = (case svc (map (take 20000) (batch_of k (drop batch_size xs))) of
        None \<Rightarrow> None | Some vs \<Rightarrow> Some (vs ! (k mod batch_size)))"
      using 1(1)[OF ne 1(2) lt] unfolding k_def .
    finally show ?thesis unfolding b m .
  qed
qed

lemma length_preserving_fails_on_bad: "length_preserving fails_on_bad"
  by (auto simp: length_preserving_def fails_on_bad_def split: if_splits)

text \<open>
  Claim C9, as stated, promises that in \<open>embedBatch([t1, t2, t3])\<close> a failing second item
  becomes \<open>None\<close> while the other two positions succeed. The three texts share one
  sub-batch, so when the call for that sub-batch raises because of the second text, all
  three positions are \<open>None\<close>, although the service embeds the first and the third text
  when asked for them alone.
\<close>

theorem C9_single_item_failure_counterexample:
  "fails_on_bad [''t1''] \<noteq> None \<and> fails_on_bad [''t3''] \<noteq> None \<and>
   generate_all_embeddings fails_on_bad [''t1'', ''bad'', ''t3''] = [None, None, None]"
  by (simp add: generate_all_embeddings_def batches_unfold batches_Nil batch_size_def
      generate_embeddings_batch_def fails_on_bad_def)

text \<open>
  Claim C9, amended: for a service that returns one vector per text when it succeeds, the
  Embedding Batcher returns a list of the same length as its input; the input is cut, in
  order, into non-empty sub-batches of at most 25 texts; and position \<open>i\<close> of the result
  is decided by the call for the sub-batch holding \<open>i\<close> alone: it is \<open>None\<close> when that
  call fails (so every position of a failing sub-batch is \<open>None\<close>), and otherwise the
  vector the call returned at the text's place in the sub-batch.
\<close>

theorem C9_generate_all_embeddings_batchwise:
  assumes "length_preserving svc"
  shows "length (generate_all_embeddings svc texts) = length texts \<and>
         concat (batches texts) = texts \<and>
         (\<forall>b \<in> set (batches texts). 0 < length b \<and> length b \<le> 25) \<and>
         (\<forall>i < length texts.
            generate_all_embeddings svc texts ! i =
              (case svc (map (take 20000) (batch_of i texts)) of
                 None \<Rightarrow> None
               | Some vs \<Rightarrow> Some (vs ! (i mod 25))))"
proof (intro conjI ballI allI impI)
  show "length (generate_all_embeddings svc texts) = length texts"
    using assms by (rule generate_all_length)
  show "concat (batches texts) = texts"
    by (rule concat_batches)
  fix b assume "b \<in> set (batches texts)"
  then have b: "0 < length b \<and> length b \<le> batch_size"
    by (rule batches_sizes)
  from b show "0 < length b" by simp
  from b show "length b \<le> 25" by (simp add: batch_size_def)
next
  fix i assume "i < length texts"
  then have "generate_all_embeddings svc texts ! i =
     (case svc (map (take 20000) (batch_of i texts)) of
        None \<Rightarrow> None | Some vs \<Rightarrow> Some (vs ! (i mod batch_size)))"
    using assms by (intro generate_all_nth)
  then show "generate_all_embeddings svc texts ! i =
     (case svc (map (take 20000) (batch_of i texts)) of
        None \<Rightarrow> None | Some vs \<Rightarrow> Some (vs ! (i mod 25)))"
    unfolding batch_size_def .
qed

theorem C9_generate_all_embeddings_batchwise_witness:
  "length_preserving fails_on_bad \<and>
   length (generate_all_embeddings fails_on_bad [''t1'', ''t2'', ''t3'']) = 3 \<and>
   generate_all_embeddings fails_on_bad [''t1'', ''t2'', ''t3''] ! 1 = Some [2]"
proof -
  have h: "length_preserving fails_on_bad"
    by (rule length_preserving_fails_on_bad)
  have b: "batch_of 1 [''t1'', ''t2'', ''t3''] = [''t1'', ''t2'', ''t3'']"
    by (simp add: batch_of_def batch_size_def)
  have s: "fails_on_bad (map (take 20000) [''t1'', ''t2'', ''t3'']) = Some [[2], [2], [2]]"
    by (simp add: fails_on_bad_def)
  note t = C9_generate_all_embeddings_batchwise [OF h, of "[''t1'', ''t2'', ''t3'']"]
  have "length (generate_all_embeddings fails_on_bad [''t1'', ''t2'', ''t3'']) = 3"
    using t [THEN conjunct1] by simp
  moreover have "generate_all_embeddings fails_on_bad [''t1'', ''t2'', ''t3''] ! 1 =
      (case fails_on_bad (map (take 20000) (batch_of 1 [''t1'', ''t2'', ''t3''])) of
         None \<Rightarrow> None | Some vs \<Rightarrow> Some (vs ! (1 mod 25)))"
    by (rule t [THEN conjunct2, THEN conjunct2, THEN conjunct2, rule_format]) simp
  then have "generate_all_embeddings fails_on_bad [''t1'', ''t2'', ''t3''] ! 1 = Some [2]"
    unfolding b s by simp
  ultimately show ?thesis using h by simp
qed

section \<open>Properties of the document identifiers\<close>

lemma str_nat_unfold:
  "str_nat n = (if n < 10 then [char_of (48 + n)] else str_nat (n div 10) @ [char_of (48 + n mod 10)])"
  by (rule str_nat.simps)

lemma str_nat_nonempty: "str_nat n \<noteq> []"
  by (subst str_nat_unfold) simp

lemma digit_char_inj:
  assumes "a < 10" "b < 10" "(char_of (48 + a) :: char) = char_of (48 + b)"
  shows "a = (b::nat)"
proof -
  have "of_char (char_of (48 + a) :: char) = (of_char (char_of (48 + b) :: char) :: nat)"
    using assms(3) by simp
  then have "(48 + a) mod 256 = (48 + b) mod 256"
    by (simp only: of_char_of)
  then show ?thesis using assms(1,2) by simp
qed

lemma str_nat_inj: "str_nat n = str_nat m \<Longrightarrow> n = m"
proof (induction n arbitrary: m rule: str_nat.induct)
  case (1 n)
  show ?case
  proof (cases "n < 10")
    case True
    then have n1: "str_nat n = [char_of (48 + n)]" by (subst str_nat_unfold) simp
    show ?thesis
    proof (cases "m < 10")
      case True
      then have "str_nat m = [char_of (48 + m)]" by (subst str_nat_unfold) simp
      with n1 1(2) have "(char_of (48 + n) :: char) = char_of (48 + m)" by simp
      then show ?thesis using \<open>n < 10\<close> \<open>m < 10\<close> by (rule digit_char_inj[rotated 2])
    next
      case False
      then have "str_nat m = str_nat (m div 10) @ [char_of (48 + m mod 10)]"
        by (subst str_nat_unfold) simp
      with n1 1(2) have "str_nat (m div 10) = []" by simp
      then show ?thesis using str_nat_nonempty by blast
    qed
  next
    case False
    then have n2: "str_nat n = str_nat (n div 10) @ [char_of (48 + n mod 10)]"
      by (subst str_nat_unfold) simp
    show ?thesis
    proof (cases "m < 10")
      case True
      then have "str_nat m = [char_of (48 + m)]" by (subst str_nat_unfold) simp
      with n2 1(2) have "str_nat (n div 10) = []" by simp
      then show ?thesis using str_nat_nonempty by blast
    next
      case m: False
      then have "str_nat m = str_nat (m div 10) @ [char_of (48 + m mod 10)]"
        by (subst str_nat_unfold) simp
      with n2 1(2) have e: "str_nat (n div 10) = str_nat (m div 10)"
        and c: "(char_of (48 + n mod 10) :: char) = char_of (48 + m mod 10)" by simp_all
      from 1(1)[OF False e] have d: "n div 10 = m div 10" .
      have "n mod 10 = m mod 10"
        by (rule digit_char_inj[OF _ _ c]) simp_all
      with d show ?thesis by (metis div_mult_mod_eq)
    qed
  qed
qed

lemma is_digit_char_of: "(d::nat) < 10 \<Longrightarrow> is_digit (char_of (48 + d))"
  by (simp add: is_digit_def of_char_of)

lemma str_nat_digits: "c \<in> set (str_nat n) \<Longrightarrow> is_digit c"
proof (induction n rule: str_nat.induct)
  case (1 n)
  show ?case
  proof (cases "n < 10")
    case True
    with 1(2) have "c = char_of (48 + n)" by (subst (asm) str_nat_unfold) simp
    then show ?thesis using True by (simp add: is_digit_char_of)
  next
    case False
    with 1(2) have "c \<in> set (str_nat (n div 10)) \<or> c = char_of (48 + n mod 10)"
      by (subst (asm) str_nat_unfold) auto
    then show ?thesis
    proof
      assume "c \<in> set (str_nat (n div 10))"
      then show ?thesis using 1(1)[OF False] by simp
    next
      assume "c = char_of (48 + n mod 10)"
      then show ?thesis by (simp add: is_digit_char_of)
    qed
  qed
qed

lemma is_digit_ok: "is_digit c \<Longrightarrow> id_char_ok c \<and> c \<noteq> CHR ''-''"
  by (auto simp: is_digit_def id_char_ok_def Let_def)

lemma id_suffix_props:
  "id_suffix i \<noteq> []" "hd (id_suffix i) \<noteq> CHR ''-''" "last (id_suffix i) \<noteq> CHR ''-''"
  "CHR ''-'' \<notin> set (id_suffix i)" "\<forall>c \<in> set (id_suffix i). id_char_ok c"
proof -
  show "id_suffix i \<noteq> []" "hd (id_suffix i) \<noteq> CHR ''-''" by (simp_all add: id_suffix_def)
  show n: "CHR ''-'' \<notin> set (id_suffix i)"
    using str_nat_digits[of "CHR ''-''" i] is_digit_ok[of "CHR ''-''"] by (auto simp: id_suffix_def)
  have "last (id_suffix i) \<in> set (id_suffix i)" by (simp add: id_suffix_def)
  with n show "last (id_suffix i) \<noteq> CHR ''-''" by metis
  show "\<forall>c \<in> set (id_suffix i). id_char_ok c"
  proof
    fix c assume "c \<in> set (id_suffix i)"
    then have "c = CHR ''_'' \<or> c \<in> set (str_nat i)" by (simp add: id_suffix_def)
    then show "id_char_ok c"
    proof
      assume "c = CHR ''_''"
      then show ?thesis by (simp add: id_char_ok_def)
    next
      assume "c \<in> set (str_nat i)"
      then show ?thesis using str_nat_digits is_digit_ok by blast
    qed
  qed
qed

lemma collapse_no_hyphen: "CHR ''-'' \<notin> set ys \<Longrightarrow> collapse_hyphens ys = ys"
  by (induction ys rule: collapse_hyphens.induct) auto

lemma collapse_append:
  "ys \<noteq> [] \<Longrightarrow> CHR ''-'' \<notin> set ys \<Longrightarrow> collapse_hyphens (xs @ ys) = collapse_hyphens xs @ ys"
proof (induction xs rule: collapse_hyphens.induct)
  fix v :: char
  assume ys: "ys \<noteq> []" "CHR ''-'' \<notin> set ys"
  then obtain y r where yr: "ys = y # r" by (cases ys) auto
  with ys have "y \<noteq> CHR ''-''" by auto
  then show "collapse_hyphens ([v] @ ys) = collapse_hyphens [v] @ ys"
    using ys yr collapse_no_hyphen[of ys] by simp
qed (simp_all add: collapse_no_hyphen)

lemma dropWhile_append_keep:
  "T \<noteq> [] \<Longrightarrow> \<not> P (hd T) \<Longrightarrow> dropWhile P (X @ T) = dropWhile P X @ T"
  by (induction X) (auto simp: neq_Nil_conv)

lemma strip_char_append:
  assumes "T \<noteq> []" "hd T \<noteq> c" "last T \<noteq> c"
  shows "strip_char c (X @ T) = dropWhile (\<lambda>x. x = c) X @ T"
proof -
  have 1: "dropWhile (\<lambda>x. x = c) (X @ T) = dropWhile (\<lambda>x. x = c) X @ T"
    using assms by (intro dropWhile_append_keep) auto
  have "hd (rev T) \<noteq> c" using assms by (simp add: hd_rev)
  then have "dropWhile (\<lambda>x. x = c) (rev T @ rev (dropWhile (\<lambda>x. x = c) X)) =
        rev T @ rev (dropWhile (\<lambda>x. x = c) X)"
    using assms(1) by (cases "rev T") auto
  then show ?thesis by (simp add: strip_char_def 1)
qed

lemma sanitize_id_eq: "sanitize_id filename i = id_stem filename @ ''_'' @ str_nat i"
proof -
  let ?san = "\<lambda>c. if id_char_ok c then c else CHR ''-''"
  let ?base = "splitext_root filename"
  have m: "map ?san (?base @ id_suffix i) = map ?san ?base @ id_suffix i"
    using id_suffix_props(5)[of i] by (simp add: map_idI)
  have c: "collapse_hyphens (map ?san ?base @ id_suffix i) =
           collapse_hyphens (map ?san ?base) @ id_suffix i"
    using id_suffix_props(1,4) by (rule collapse_append)
  have s: "strip_char (CHR ''-'') (collapse_hyphens (map ?san ?base) @ id_suffix i) =
           id_stem filename @ id_suffix i"
    unfolding id_stem_def using id_suffix_props(1,2,3) by (rule strip_char_append)
  have "sanitize_id filename i =
     (let s = strip_char (CHR ''-'') (collapse_hyphens (map ?san (?base @ id_suffix i)))
      in if s = [] then ''doc-'' @ str_nat i else s)"
    by (simp add: sanitize_id_def Let_def id_suffix_def)
  also have "\<dots> = id_stem filename @ id_suffix i"
    unfolding m c s Let_def using id_suffix_props(1)[of i] by simp
  finally show ?thesis by (simp add: id_suffix_def)
qed

lemma sanitize_id_inj: "sanitize_id filename i = sanitize_id filename j \<longleftrightarrow> i = j"
  using str_nat_inj by (auto simp: sanitize_id_eq)

lemma doc_id_make_document:
  "doc_id (make_document doc_path n ic) = sanitize_id (basename doc_path) (fst ic)"
  by (cases ic) (simp add: make_document_def Let_def)

lemma doc_ids_of_text:
  "map doc_id (documents_of_text doc_path text_content) =
   map (sanitize_id (basename doc_path)) [0..<length (split_text text_content 1000 200)]"
proof -
  let ?chunks = "split_text text_content 1000 200"
  have "map doc_id (documents_of_text doc_path text_content) =
        map (\<lambda>x. sanitize_id (basename doc_path) (fst x)) (enumerate 0 ?chunks)"
    by (simp add: documents_of_text_def Let_def doc_id_make_document comp_def)
  also have "\<dots> = map (sanitize_id (basename doc_path)) (map fst (enumerate 0 ?chunks))"
    by (simp only: map_map comp_def)
  also have "map fst (enumerate 0 ?chunks) = [0..<length ?chunks]"
    by (simp add: enumerate_eq_zip)
  finally show ?thesis .
qed

text \<open>
  Claim C8, as stated, promises identifiers that are pairwise unique across all chunks of
  one ingestion run, also for chunks of distinct source files. A run over
  \<open>kb/report.pdf\<close> and \<open>kb/report.txt\<close> gives the first chunk of both files the
  identifier \<open>report_0\<close>: the extension is dropped before the identifier is built.
\<close>

theorem C8_ids_across_files_counterexample:
  "\<not> distinct (map doc_id (documents_of_text ''kb/report.pdf'' ''x'' @
                            documents_of_text ''kb/report.txt'' ''y''))"
  by (simp add: doc_ids_of_text split_text_def sanitize_id_eq id_stem_def basename_def
      splitext_root_def id_char_ok_def)

text \<open>
  Claim C8, amended: the identifier is a function of the file name and the chunk index
  alone, and for one file name two chunk indices give the same identifier exactly when
  they are equal; so the identifiers of the chunks produced from one source document are
  pairwise distinct. (Nothing is promised for chunks of distinct files.)
\<close>

theorem C8_ids_unique_within_document:
  "(sanitize_id filename i = sanitize_id filename j \<longleftrightarrow> i = j) \<and>
   distinct (map doc_id (documents_of_text doc_path text_content))"
proof
  show "sanitize_id filename i = sanitize_id filename j \<longleftrightarrow> i = j"
    by (rule sanitize_id_inj)
  have "inj_on (sanitize_id (basename doc_path)) (set [0..<length (split_text text_content 1000 200)])"
    by (rule inj_onI) (simp add: sanitize_id_inj)
  then show "distinct (map doc_id (documents_of_text doc_path text_content))"
    by (simp add: doc_ids_of_text distinct_map)
qed

theorem C8_ids_unique_within_document_witness:
  "sanitize_id ''my file.pdf'' 0 \<noteq> sanitize_id ''my file.pdf'' 1 \<and>
   distinct (map doc_id (documents_of_text ''kb/my file.pdf'' ''hello''))"
  using C8_ids_unique_within_document [of "''my file.pdf''" 0 1 "''kb/my file.pdf''" "''hello''"]
  by simp

section \<open>Properties of the Chunker\<close>

lemma words_aux_space_split:
  "is_space c \<Longrightarrow> words_aux cur (a @ c # b) = words_aux cur a @ words_aux [] b"
  by (induction a arbitrary: cur) auto

lemma words_aux_trailing:
  "\<forall>c \<in> set sp. is_space c \<Longrightarrow> words_aux cur (a @ sp) = words_aux cur a"
proof (induction sp arbitrary: a cur)
  case Nil
  then show ?case by simp
next
  case (Cons c sp)
  have "words_aux cur (a @ c # sp) = words_aux cur a @ words_aux [] sp"
    using Cons.prems by (simp add: words_aux_space_split)
  moreover have "words_aux [] ([] @ sp) = words_aux [] []"
    using Cons.prems by (intro Cons.IH) simp
  ultimately show ?case by simp
qed

lemma words_aux_leading:
  "words_aux [] (dropWhile is_space s) = words_aux [] s"
  by (induction s) auto

lemma words_strip: "words (strip s) = words s"
proof -
  let ?t = "lstrip s"
  have "?t = rstrip ?t @ rev (takeWhile is_space (rev ?t))"
    by (metis rstrip_def rev_append rev_rev_ident takeWhile_dropWhile_id)
  moreover have "\<forall>c \<in> set (rev (takeWhile is_space (rev ?t))). is_space c"
    by (auto dest: set_takeWhileD)
  ultimately have "words_aux [] ?t = words_aux [] (rstrip ?t)"
    by (metis words_aux_trailing)
  then show ?thesis
    by (simp add: words_def strip_def) (simp add: lstrip_def words_aux_leading)
qed

lemma words_append:
  assumes "a = [] \<or> is_space (last a)"
  shows "words (a @ b) = words a @ words b"
proof (cases "a = []")
  case True
  then show ?thesis by (simp add: words_def)
next
  case False
  with assms have sp: "is_space (last a)" by simp
  from False have a: "a = butlast a @ [last a]" by simp
  have "words (a @ b) = words_aux [] (butlast a @ last a # b)"
    by (subst a) (simp add: words_def)
  also have "\<dots> = words_aux [] (butlast a) @ words_aux [] b"
    using sp by (rule words_aux_space_split)
  also have "words_aux [] (butlast a) = words_aux [] (butlast a @ [last a])"
    using sp by (simp add: words_aux_trailing)
  finally show ?thesis using a by (simp add: words_def)
qed

lemma is_space_NL: "is_space NL"
  by (simp add: is_space_def NL_def)

lemma is_space_blank: "is_space (CHR '' '')"
  by (simp add: is_space_def)

lemma words_paragraph: "words (p @ [NL, NL]) = words p"
  using words_aux_trailing[of "[NL, NL]" "[]" p] by (simp add: words_def is_space_NL)

lemma join_sep_Cons: "zs \<noteq> [] \<Longrightarrow> join_sep sep (x # zs) = x @ sep @ join_sep sep zs"
  by (cases zs) simp_all

lemma words_join_paragraphs: "words (join_sep [NL, NL] ps) = concat (map words ps)"
proof (induction ps)
  case Nil
  then show ?case by (simp add: words_def)
next
  case (Cons x ps)
  show ?case
  proof (cases "ps = []")
    case True
    then show ?thesis by simp
  next
    case False
    have "words ((x @ [NL, NL]) @ join_sep [NL, NL] ps) =
          words (x @ [NL, NL]) @ words (join_sep [NL, NL] ps)"
      by (rule words_append) (simp add: is_space_NL)
    then show ?thesis using Cons False by (simp add: join_sep_Cons words_paragraph)
  qed
qed

lemma split2_nonempty: "split2 a b cur s \<noteq> []"
  by (induction a b cur s rule: split2.induct) simp_all

lemma join_split2: "join_sep [a, b] (split2 a b cur s) = cur @ s"
  by (induction a b cur s rule: split2.induct) (simp_all add: join_sep_Cons split2_nonempty)

lemma words_split_paragraphs: "concat (map words (split_paragraphs text)) = words text"
  using words_join_paragraphs[of "split_paragraphs text"] join_split2[of NL NL "[]" "text"]
  by (simp add: split_paragraphs_def)

lemma flush_words:
  "concat (map words (flush (segs, cur))) = concat (map words segs) @ words cur"
  by (simp add: flush_def words_strip) (simp add: words_def)

lemma paragraph_loop_words:
  assumes "\<forall>p \<in> set ps. int (length p) \<le> m" "cur = [] \<or> is_space (last cur)"
  shows "concat (map words (flush (paragraph_loop m ps (segs, cur)))) =
         concat (map words segs) @ words cur @ concat (map words ps)"
  using assms
proof (induction ps arbitrary: segs cur)
  case Nil
  then show ?case by (simp add: flush_words)
next
  case (Cons p ps)
  from Cons.prems have small: "\<not> int (length p) > m" and rest: "\<forall>p \<in> set ps. int (length p) \<le> m"
    by auto
  show ?case
  proof (cases "int (length cur) + int (length p) + 2 \<le> m")
    case True
    have "concat (map words (flush (paragraph_loop m ps (segs, cur @ p @ [NL, NL])))) =
          concat (map words segs) @ words (cur @ p @ [NL, NL]) @ concat (map words ps)"
      using rest by (intro Cons.IH) (simp_all add: is_space_NL)
    moreover have "words (cur @ p @ [NL, NL]) = words cur @ words p"
      using words_append[OF Cons.prems(2), of "p @ [NL, NL]"] by (simp add: words_paragraph)
    ultimately show ?thesis using True by simp
  next
    case False
    obtain segs' where f: "flush (segs, cur) = segs'" by simp
    have "concat (map words (flush (paragraph_loop m ps (segs', p @ [NL, NL])))) =
          concat (map words segs') @ words (p @ [NL, NL]) @ concat (map words ps)"
      using rest by (intro Cons.IH) (simp_all add: is_space_NL)
    moreover have "concat (map words segs') = concat (map words segs) @ words cur"
      using flush_words[of segs cur] f by simp
    ultimately show ?thesis using False small f by (simp add: words_paragraph)
  qed
qed

lemma first_pass_words:
  assumes "\<forall>p \<in> set (split_paragraphs text). int (length p) \<le> max_size"
  shows "concat (map words (first_pass text max_size)) = words text"
  using paragraph_loop_words[OF assms, of "[]" "[]"]
  by (simp add: first_pass_def words_split_paragraphs) (simp add: words_def)

lemma overlap_chunk_words:
  assumes "int (length (overlap_text overlap prev @ '' '' @ seg)) \<le> max_size"
  shows "words (overlap_chunk max_size overlap prev seg) =
         words (overlap_text overlap prev) @ words seg"
proof -
  let ?ov = "overlap_text overlap prev"
  have "overlap_chunk max_size overlap prev seg = strip (?ov @ '' '' @ seg)"
    using assms by (simp add: overlap_chunk_def Let_def)
  moreover have "words ((?ov @ '' '') @ seg) = words (?ov @ '' '') @ words seg"
    by (rule words_append) (simp add: is_space_blank)
  moreover have "words (?ov @ '' '') = words ?ov"
    using words_aux_trailing[of "'' ''" "[]" ?ov] by (simp add: words_def is_space_blank)
  ultimately show ?thesis by (simp add: words_strip)
qed

lemma remove_overlaps_words:
  "no_truncation max_size overlap prev segs \<Longrightarrow>
   remove_overlaps overlap prev segs (overlap_loop max_size overlap prev segs) =
     concat (map words segs)"
proof (induction segs arbitrary: prev)
  case Nil
  then show ?case by simp
next
  case (Cons seg segs)
  then have "words (overlap_chunk max_size overlap prev seg) =
         words (overlap_text overlap prev) @ words seg"
    by (intro overlap_chunk_words) simp
  then show ?case using Cons by simp
qed

lemma deoverlapped_words_eq:
  assumes "\<forall>p \<in> set (split_paragraphs text). int (length p) \<le> max_size"
    and "overlap \<le> 0 \<or>
         no_truncation max_size overlap (hd (first_pass text max_size)) (tl (first_pass text max_size))"
  shows "deoverlapped_words text max_size overlap = words text"
proof -
  let ?segs = "first_pass text max_size"
  note fp = first_pass_words[OF assms(1)]
  show ?thesis
  proof (cases "int (length text) \<le> max_size")
    case True
    then show ?thesis by (simp add: deoverlapped_words_def split_text_def)
  next
    case big: False
    show ?thesis
    proof (cases "overlap \<le> 0 \<or> length ?segs \<le> 1")
      case True
      then have "split_text text max_size overlap = ?segs"
        using big by (simp add: split_text_def add_overlap_def)
      then show ?thesis using True big fp by (auto simp: deoverlapped_words_def Let_def)
    next
      case False
      then have nt: "no_truncation max_size overlap (hd ?segs) (tl ?segs)"
        using assms(2) by simp
      from False have ne: "?segs \<noteq> []" by auto
      have st: "split_text text max_size overlap =
            hd ?segs # overlap_loop max_size overlap (hd ?segs) (tl ?segs)"
        using big False by (simp add: split_text_def add_overlap_def)
      have "deoverlapped_words text max_size overlap =
            words (hd ?segs) @ remove_overlaps overlap (hd ?segs) (tl ?segs)
               (overlap_loop max_size overlap (hd ?segs) (tl ?segs))"
        using big False by (simp add: deoverlapped_words_def Let_def st)
      also have "\<dots> = words (hd ?segs) @ concat (map words (tl ?segs))"
        using nt by (simp add: remove_overlaps_words)
      also have "\<dots> = concat (map words ?segs)"
        using ne by (cases ?segs) simp_all
      finally show ?thesis using fp by simp
    qed
  qed
qed

lemma find_char_nonneg:
  "0 \<le> find_char c s \<Longrightarrow> nat (find_char c s) < length s \<and> s ! nat (find_char c s) = c"
proof (induction s)
  case Nil
  then show ?case by simp
next
  case (Cons x s)
  show ?case
  proof (cases "x = c")
    case True
    then show ?thesis by simp
  next
    case False
    with Cons.prems have r: "0 \<le> find_char c s" and e: "find_char c (x # s) = find_char c s + 1"
      by (auto simp: Let_def split: if_splits)
    from Cons.IH[OF r] show ?thesis using r by (simp add: e nat_add_distrib)
  qed
qed

lemma overlap_window_suffix: "suffix (overlap_window overlap prev) prev"
  by (simp add: overlap_window_def suffix_drop)

lemma overlap_window_length:
  "0 < overlap \<Longrightarrow> int (length (overlap_window overlap prev)) \<le> overlap"
  by (simp add: overlap_window_def)

lemma overlap_text_suffix_window:
  "suffix (overlap_text overlap prev) (overlap_window overlap prev)"
  by (simp add: overlap_text_def Let_def suffix_drop)

lemma overlap_text_suffix: "suffix (overlap_text overlap prev) prev"
  using overlap_text_suffix_window overlap_window_suffix by (rule suffix_order.trans)

lemma overlap_text_length:
  assumes "0 < overlap"
  shows "int (length (overlap_text overlap prev)) \<le> overlap"
proof -
  have "length (overlap_text overlap prev) \<le> length (overlap_window overlap prev)"
    using overlap_text_suffix_window by (rule suffix_length_le)
  then show ?thesis using overlap_window_length[OF assms, of prev] by linarith
qed

lemma overlap_text_word_boundary:
  assumes "0 < find_char (CHR '' '') (overlap_window overlap prev)"
  shows "\<exists>pre. prev = pre @ CHR '' '' # overlap_text overlap prev"
proof -
  let ?w = "overlap_window overlap prev"
  let ?k = "nat (find_char (CHR '' '') ?w)"
  from assms have "0 \<le> find_char (CHR '' '') ?w" by simp
  then have k: "?k < length ?w" "?w ! ?k = CHR '' ''"
    using find_char_nonneg by blast+
  then have w: "?w = take ?k ?w @ CHR '' '' # drop (Suc ?k) ?w"
    by (metis id_take_nth_drop)
  have ov: "overlap_text overlap prev = drop (Suc ?k) ?w"
    using assms by (simp add: overlap_text_def Let_def nat_add_distrib)
  obtain pre0 where "prev = pre0 @ ?w"
    using overlap_window_suffix by (auto simp: suffix_def)
  then have "prev = (pre0 @ take ?k ?w) @ CHR '' '' # overlap_text overlap prev"
    using w ov by (metis append.assoc)
  then show ?thesis by blast
qed

lemma overlap_window_drop:
  "0 < overlap \<Longrightarrow> overlap_window overlap prev = drop (length prev - nat overlap) prev"
  by (simp add: overlap_window_def nat_diff_distrib)

lemma find_char_first:
  "c \<notin> set a \<Longrightarrow> find_char c (a @ c # b) = int (length a)"
  by (induction a) (auto simp: Let_def)

lemma find_char_absent: "c \<notin> set s \<Longrightarrow> find_char c s = -1"
  by (induction s) (auto simp: Let_def)

lemma overlap_text_after_first_space:
  assumes "overlap_window overlap prev = a @ CHR '' '' # b" "CHR '' '' \<notin> set a" "a \<noteq> []"
  shows "overlap_text overlap prev = b"
proof -
  have "find_char (CHR '' '') (a @ CHR '' '' # b) = int (length a)"
    using assms(2) by (rule find_char_first)
  moreover have "0 < int (length a)" using assms(3) by simp
  ultimately show ?thesis
    unfolding overlap_text_def Let_def assms(1) by (simp add: nat_add_distrib)
qed

lemma overlap_text_whole_window:
  assumes "CHR '' '' \<notin> set (overlap_window overlap prev) \<or>
           take 1 (overlap_window overlap prev) = '' ''"
  shows "overlap_text overlap prev = overlap_window overlap prev"
  using assms
proof
  assume "CHR '' '' \<notin> set (overlap_window overlap prev)"
  then have "find_char (CHR '' '') (overlap_window overlap prev) = -1" by (rule find_char_absent)
  then show ?thesis by (simp add: overlap_text_def Let_def)
next
  assume "take 1 (overlap_window overlap prev) = '' ''"
  then obtain b where "overlap_window overlap prev = CHR '' '' # b"
    by (cases "overlap_window overlap prev") simp_all
  then show ?thesis by (simp add: overlap_text_def Let_def)
qed

lemma overlap_loop_length: "length (overlap_loop m ov prev segs) = length segs"
  by (induction segs arbitrary: prev) simp_all

lemma overlap_loop_nth:
  "k < length segs \<Longrightarrow>
   overlap_loop m ov prev segs ! k = overlap_chunk m ov ((prev # segs) ! k) (segs ! k)"
proof (induction segs arbitrary: prev k)
  case Nil
  then show ?case by simp
next
  case (Cons seg segs)
  then show ?case by (cases k) simp_all
qed

lemma strip_length: "length (strip s) \<le> length s"
proof -
  have "length (rstrip t) \<le> length t" for t
    by (simp add: rstrip_def) (metis length_dropWhile_le length_rev)
  moreover have "length (lstrip s) \<le> length s"
    by (simp add: lstrip_def length_dropWhile_le)
  ultimately show ?thesis unfolding strip_def by (meson le_trans)
qed

lemma overlap_chunk_length:
  assumes "0 \<le> m"
  shows "int (length (overlap_chunk m ov prev seg)) \<le> m"
proof -
  let ?c = "overlap_text ov prev @ '' '' @ seg"
  let ?cut = "if int (length ?c) > m then py_take m ?c else ?c"
  have "length (take (nat m) ?c) \<le> nat m" by (simp only: length_take min.cobounded2)
  then have "int (length ?cut) \<le> m" using assms by (auto simp: py_take_def simp del: length_take length_append)
  moreover have "length (strip ?cut) \<le> length ?cut" by (rule strip_length)
  ultimately have "int (length (strip ?cut)) \<le> m" by linarith
  then show ?thesis unfolding overlap_chunk_def Let_def .
qed

lemma split_text_overlap:
  assumes "int (length text) > max_size" "0 < overlap"
  shows "length (split_text text max_size overlap) = length (first_pass text max_size)"
    and "0 < length (first_pass text max_size) \<Longrightarrow>
         split_text text max_size overlap ! 0 = first_pass text max_size ! 0"
    and "0 < i \<Longrightarrow> i < length (first_pass text max_size) \<Longrightarrow>
         split_text text max_size overlap ! i =
           overlap_chunk max_size overlap (first_pass text max_size ! (i - 1))
             (first_pass text max_size ! i)"
proof -
  let ?segs = "first_pass text max_size"
  show "length (split_text text max_size overlap) = length ?segs"
    using assms by (cases ?segs) (simp_all add: split_text_def add_overlap_def overlap_loop_length)
  show "split_text text max_size overlap ! 0 = ?segs ! 0" if "0 < length ?segs"
    using assms that by (cases ?segs) (simp_all add: split_text_def add_overlap_def)
  show "split_text text max_size overlap ! i =
           overlap_chunk max_size overlap (?segs ! (i - 1)) (?segs ! i)"
    if i: "0 < i" "i < length ?segs"
  proof -
    obtain s0 rest where sr: "?segs = s0 # rest" using i by (cases ?segs) auto
    with i have len: "\<not> length ?segs \<le> 1" by (cases rest) auto
    obtain k where k: "i = Suc k" using i by (cases i) auto
    have "split_text text max_size overlap = s0 # overlap_loop max_size overlap s0 rest"
      using assms len sr by (simp add: split_text_def add_overlap_def)
    then have "split_text text max_size overlap ! i = overlap_loop max_size overlap s0 rest ! k"
      by (simp add: k)
    also have "\<dots> = overlap_chunk max_size overlap ((s0 # rest) ! k) (rest ! k)"
      using i k sr by (intro overlap_loop_nth) simp
    finally show ?thesis by (simp add: sr k)
  qed
qed

text \<open>
  Claim C5 promises that, for \<open>maxSize \<ge> 1\<close>, every chunk has length at most \<open>maxSize\<close>
  unless it is an atomic sentence longer than \<open>maxSize\<close>, emitted unmodified. The
  sentence loop appends \<open>'. '\<close> to every sentence, also to the last one of a paragraph,
  which had none. For the text \<open>a. bcd\<close> with \<open>maxSize = 3\<close> and no overlap, no sentence
  is longer than 3, yet the second chunk is \<open>bcd.\<close>, of length 4, and it is not a
  piece of the text.
\<close>

theorem C5_chunk_longer_than_max_size:
  "split_sentences ''a. bcd'' = [''a'', ''bcd''] \<and>
   split_text ''a. bcd'' 3 0 = [''a.'', ''bcd.''] \<and>
   length (split_text ''a. bcd'' 3 0 ! 1) = 4"
  by (simp add: split_text_def first_pass_def split_paragraphs_def split_sentences_def
      flush_def add_overlap_def strip_def lstrip_def rstrip_def is_space_def NL_def)

text \<open>
  Claim C4, as stated, promises that the chunks without their injected overlap hold every
  word of the text once and in order, for every text, \<open>maxSize\<close> and \<open>overlap\<close>. The
  second pass cuts a chunk to \<open>maxSize\<close> characters after the overlap text was put in
  front, so the end of the segment is dropped: for two paragraphs \<open>ab cd\<close> and \<open>ef gh\<close>
  with \<open>maxSize = 5\<close> and \<open>overlap = 3\<close> the chunks are \<open>ab cd\<close> and \<open>cd e\<close>, and the
  word \<open>gh\<close> is lost.
\<close>

theorem C4_truncation_loses_words_counterexample:
  "words (''ab cd'' @ [NL, NL] @ ''ef gh'') = [''ab'', ''cd'', ''ef'', ''gh''] \<and>
   split_text (''ab cd'' @ [NL, NL] @ ''ef gh'') 5 3 = [''ab cd'', ''cd e''] \<and>
   deoverlapped_words (''ab cd'' @ [NL, NL] @ ''ef gh'') 5 3 = [''ab'', ''cd'', ''e'']"
  by (simp add: deoverlapped_words_def words_def split_text_def first_pass_def
      split_paragraphs_def split_sentences_def flush_def add_overlap_def strip_def lstrip_def
      rstrip_def is_space_def NL_def overlap_chunk_def overlap_text_def overlap_window_def
      py_take_def Let_def)

text \<open>
  Claim C4, amended: when no paragraph of the text is longer than \<open>maxSize\<close> (so that no
  paragraph is split into sentences) and no chunk of the second pass is cut to \<open>maxSize\<close>
  after its overlap text was put in front (or \<open>overlap \<le> 0\<close>), the words of the chunks
  without the words of their injected overlap text, concatenated, are the words of the
  text, each once and in the original order.
\<close>

theorem C4_words_preserved_without_truncation:
  assumes "\<forall>p \<in> set (split_paragraphs text). int (length p) \<le> max_size"
    and "overlap \<le> 0 \<or>
         no_truncation max_size overlap (hd (first_pass text max_size))
           (tl (first_pass text max_size))"
  shows "deoverlapped_words text max_size overlap = words text"
  using assms by (rule deoverlapped_words_eq)

theorem C4_words_preserved_without_truncation_witness:
  "split_paragraphs (''ab cd'' @ [NL, NL] @ ''ef'') = [''ab cd'', ''ef''] \<and>
   no_truncation 8 2 (hd (first_pass (''ab cd'' @ [NL, NL] @ ''ef'') 8))
     (tl (first_pass (''ab cd'' @ [NL, NL] @ ''ef'') 8)) \<and>
   split_text (''ab cd'' @ [NL, NL] @ ''ef'') 8 2 = [''ab cd'', ''cd ef''] \<and>
   deoverlapped_words (''ab cd'' @ [NL, NL] @ ''ef'') 8 2 = [''ab'', ''cd'', ''ef'']"
proof -
  let ?T = "''ab cd'' @ [NL, NL] @ ''ef''"
  have sp: "split_paragraphs ?T = [''ab cd'', ''ef'']"
    by (simp add: split_paragraphs_def NL_def)
  have h1: "\<forall>p \<in> set (split_paragraphs ?T). int (length p) \<le> 8"
    unfolding sp by simp
  have fp: "first_pass ?T 8 = [''ab cd'', ''ef'']"
    by (simp add: first_pass_def split_paragraphs_def flush_def strip_def lstrip_def
        rstrip_def is_space_def NL_def)
  have h2: "no_truncation 8 2 (hd (first_pass ?T 8)) (tl (first_pass ?T 8))"
    unfolding fp by (simp add: overlap_text_def overlap_window_def Let_def)
  have st: "split_text ?T 8 2 = [''ab cd'', ''cd ef'']"
    unfolding split_text_def fp
    by (simp add: add_overlap_def overlap_chunk_def overlap_text_def
        overlap_window_def Let_def strip_def lstrip_def rstrip_def is_space_def)
  have w: "words ?T = [''ab'', ''cd'', ''ef'']"
    by (simp add: words_def is_space_def NL_def)
  have "deoverlapped_words ?T 8 2 = words ?T"
    using h1 h2 C4_words_preserved_without_truncation [of ?T 8 2] by blast
  then show ?thesis using sp h2 st w by simp
qed

text \<open>
  Claim C6, as stated, promises that chunk \<open>c[i]\<close> begins with text drawn from the
  trailing characters of the previous returned chunk \<open>c[i - 1]\<close>. The second pass takes
  the overlap text from the previous segment of the first pass, and the returned chunk
  \<open>c[i - 1]\<close> may have lost the end of that segment when it was cut to \<open>maxSize\<close>. For
  three paragraphs \<open>ab cd\<close>, \<open>ef gh\<close>, \<open>ij kl\<close> with \<open>maxSize = 5\<close> and \<open>overlap = 3\<close>
  the chunks are \<open>ab cd\<close>, \<open>cd e\<close>, \<open>gh i\<close>: the third chunk begins with \<open>gh\<close>, taken
  from the segment \<open>ef gh\<close>, and its first character does not occur in the second chunk.
\<close>

theorem C6_overlap_not_from_returned_chunk_counterexample:
  "first_pass (''ab cd'' @ [NL, NL] @ ''ef gh'' @ [NL, NL] @ ''ij kl'') 5 =
     [''ab cd'', ''ef gh'', ''ij kl''] \<and>
   split_text (''ab cd'' @ [NL, NL] @ ''ef gh'' @ [NL, NL] @ ''ij kl'') 5 3 =
     [''ab cd'', ''cd e'', ''gh i''] \<and>
   hd (split_text (''ab cd'' @ [NL, NL] @ ''ef gh'' @ [NL, NL] @ ''ij kl'') 5 3 ! 2)
     \<notin> set (split_text (''ab cd'' @ [NL, NL] @ ''ef gh'' @ [NL, NL] @ ''ij kl'') 5 3 ! 1)"
  by (simp add: split_text_def first_pass_def split_paragraphs_def split_sentences_def
      flush_def add_overlap_def strip_def lstrip_def rstrip_def is_space_def NL_def
      overlap_chunk_def overlap_text_def overlap_window_def py_take_def Let_def)

text \<open>
  Claim C6, amended: let \<open>segs\<close> be the segments of the first pass and \<open>chunks\<close> the
  returned chunks, for a text longer than \<open>maxSize\<close> and \<open>overlap > 0\<close>. There are as many
  chunks as segments, and for \<open>0 < i\<close> chunk \<open>i\<close> is the stripped text
  \<open>ov + ' ' + segs[i]\<close>, cut to its first \<open>maxSize\<close> characters when it is longer, where
  the overlap text \<open>ov\<close> is a suffix of the previous segment \<open>segs[i - 1]\<close> (not of the
  previous returned chunk) of at most \<open>overlap\<close> characters. Let \<open>window\<close> be the last
  \<open>overlap\<close> characters of \<open>segs[i - 1]\<close> (all of it when it is shorter). When the first
  space of \<open>window\<close> comes after its first character, \<open>ov\<close> is exactly what follows
  that first space, so \<open>ov\<close> starts at a word boundary of \<open>segs[i - 1]\<close>; when \<open>window\<close>
  has no space or begins with a space, \<open>ov\<close> is the whole window. For \<open>maxSize \<ge> 0\<close>
  chunk \<open>i\<close> has at most \<open>maxSize\<close> characters.
\<close>

theorem C6_overlap_from_previous_segment:
  assumes "segs = first_pass text max_size"
    and "chunks = split_text text max_size overlap"
    and "ov = overlap_text overlap (segs ! (i - 1))"
    and "window = drop (length (segs ! (i - 1)) - nat overlap) (segs ! (i - 1))"
    and "int (length text) > max_size" and "0 < overlap"
    and "0 < i" and "i < length segs"
  shows "length chunks = length segs \<and>
         chunks ! 0 = segs ! 0 \<and>
         chunks ! i =
           strip (if int (length (ov @ '' '' @ segs ! i)) > max_size
                  then py_take max_size (ov @ '' '' @ segs ! i)
                  else ov @ '' '' @ segs ! i) \<and>
         suffix ov (segs ! (i - 1)) \<and>
         int (length ov) \<le> overlap \<and>
         (\<forall>a b. window = a @ CHR '' '' # b \<and> a \<noteq> [] \<and> CHR '' '' \<notin> set a \<longrightarrow> ov = b) \<and>
         (CHR '' '' \<notin> set window \<or> take 1 window = '' '' \<longrightarrow> ov = window) \<and>
         (0 < find_char (CHR '' '') (overlap_window overlap (segs ! (i - 1))) \<longrightarrow>
            (\<exists>pre. segs ! (i - 1) = pre @ CHR '' '' # ov)) \<and>
         (0 \<le> max_size \<longrightarrow> int (length (chunks ! i)) \<le> max_size)"
proof -
  have big: "int (length text) > max_size" and pos: "0 < overlap" by fact+
  have i: "0 < i" "i < length (first_pass text max_size)" using assms by simp_all
  have w: "window = overlap_window overlap (segs ! (i - 1))"
    unfolding assms(4) using pos by (rule overlap_window_drop[symmetric])
  have ci: "chunks ! i = overlap_chunk max_size overlap (segs ! (i - 1)) (segs ! i)"
    unfolding assms(1,2) using big pos i by (rule split_text_overlap(3))
  have "length chunks = length segs"
    unfolding assms(1,2) using big pos by (rule split_text_overlap(1))
  moreover have "chunks ! 0 = segs ! 0"
    unfolding assms(1,2) using big pos i by (intro split_text_overlap(2)) auto
  moreover have "chunks ! i =
           strip (if int (length (ov @ '' '' @ segs ! i)) > max_size
                  then py_take max_size (ov @ '' '' @ segs ! i)
                  else ov @ '' '' @ segs ! i)"
    unfolding ci assms(3) overlap_chunk_def Let_def ..
  moreover have "suffix ov (segs ! (i - 1))"
    unfolding assms(3) by (rule overlap_text_suffix)
  moreover have "int (length ov) \<le> overlap"
    unfolding assms(3) using pos by (rule overlap_text_length)
  moreover have "\<forall>a b. window = a @ CHR '' '' # b \<and> a \<noteq> [] \<and> CHR '' '' \<notin> set a \<longrightarrow> ov = b"
    unfolding assms(3) w using overlap_text_after_first_space by blast
  moreover have "CHR '' '' \<notin> set window \<or> take 1 window = '' '' \<longrightarrow> ov = window"
    unfolding assms(3) w using overlap_text_whole_window by blast
  moreover have "0 < find_char (CHR '' '') (overlap_window overlap (segs ! (i - 1))) \<longrightarrow>
            (\<exists>pre. segs ! (i - 1) = pre @ CHR '' '' # ov)"
    unfolding assms(3) using overlap_text_word_boundary by blast
  moreover have "0 \<le> max_size \<longrightarrow> int (length (chunks ! i)) \<le> max_size"
    unfolding ci using overlap_chunk_length by blast
  ultimately show ?thesis by blast
qed

theorem C6_overlap_from_previous_segment_witness:
  "int (length (''ab cd ef gh'' @ [NL, NL] @ ''ij'')) > 12 \<and>
   first_pass (''ab cd ef gh'' @ [NL, NL] @ ''ij'') 12 = [''ab cd ef gh'', ''ij''] \<and>
   drop (length ''ab cd ef gh'' - nat 10) ''ab cd ef gh'' = ''b'' @ CHR '' '' # ''cd ef gh'' \<and>
   overlap_text 10 ''ab cd ef gh'' = ''cd ef gh'' \<and>
   split_text (''ab cd ef gh'' @ [NL, NL] @ ''ij'') 12 10 ! 1 = ''cd ef gh ij'' \<and>
   suffix ''cd ef gh'' ''ab cd ef gh''"
proof -
  let ?T = "''ab cd ef gh'' @ [NL, NL] @ ''ij''"
  let ?ov = "overlap_text 10 ''ab cd ef gh''"
  have fp: "first_pass ?T 12 = [''ab cd ef gh'', ''ij'']"
    by (simp add: first_pass_def split_paragraphs_def flush_def strip_def lstrip_def
        rstrip_def is_space_def NL_def)
  have big: "int (length ?T) > 12" by simp
  have w: "drop (length ''ab cd ef gh'' - nat 10) ''ab cd ef gh'' = ''b'' @ CHR '' '' # ''cd ef gh''"
    by simp
  have h1: "[''ab cd ef gh'', ''ij''] = first_pass ?T 12" by (simp only: fp)
  have h3: "?ov = overlap_text 10 ([''ab cd ef gh'', ''ij''] ! (1 - 1))" by simp
  have h4: "''b cd ef gh'' = drop (length ([''ab cd ef gh'', ''ij''] ! (1 - 1)) - nat 10)
              ([''ab cd ef gh'', ''ij''] ! (1 - 1))" by simp
  note t = C6_overlap_from_previous_segment
      [of "[''ab cd ef gh'', ''ij'']" ?T 12 "split_text ?T 12 10" 10 ?ov 1 "''b cd ef gh''",
       OF h1 refl h3 h4 big]
  have "\<forall>a b. ''b cd ef gh'' = a @ CHR '' '' # b \<and> a \<noteq> [] \<and> CHR '' '' \<notin> set a \<longrightarrow> ?ov = b"
    using t by simp
  then have ov: "?ov = ''cd ef gh''"
    by (rule allE[where x = "''b''"]) simp
  have c: "split_text ?T 12 10 ! 1 = ''cd ef gh ij''"
    using t unfolding ov by (simp add: strip_def lstrip_def rstrip_def is_space_def)
  have s: "suffix ''cd ef gh'' ''ab cd ef gh''" using t unfolding ov by simp
  show ?thesis using big fp w ov c s by blast
qed

section \<open>Properties of the Catalog Normalizer\<close>

lemma enumerate_concat_keys:
  assumes "\<And>idx r p. p \<in> set (g (idx, r)) \<Longrightarrow> key p = f idx"
  shows "p \<in> set (concat (map g (enumerate n rows))) \<Longrightarrow>
         \<exists>idx. n \<le> idx \<and> idx < n + length rows \<and> key p = f idx"
proof (induction rows arbitrary: n)
  case Nil
  then show ?case by simp
next
  case (Cons r rows)
  from Cons.prems have "p \<in> set (g (n, r)) \<or> p \<in> set (concat (map g (enumerate (Suc n) rows)))"
    by simp
  then show ?case
  proof
    assume "p \<in> set (g (n, r))"
    then have "key p = f n" by (rule assms)
    then show ?thesis by auto
  next
    assume "p \<in> set (concat (map g (enumerate (Suc n) rows)))"
    then obtain idx where "Suc n \<le> idx" "idx < Suc n + length rows" "key p = f idx"
      using Cons.IH by blast
    then show ?thesis by (intro exI[of _ idx]) simp
  qed
qed

lemma enumerate_concat_distinct:
  assumes keys: "\<And>idx r p. p \<in> set (g (idx, r)) \<Longrightarrow> key p = f idx"
    and inj: "inj f"
    and one: "\<And>x. length (g x) \<le> 1"
  shows "distinct (map key (concat (map g (enumerate n rows))))"
proof (induction rows arbitrary: n)
  case Nil
  then show ?case by simp
next
  case (Cons r rows)
  have d1: "distinct (map key (g (n, r)))"
    using one[of "(n, r)"] by (cases "g (n, r)") (auto simp: le_Suc_eq)
  have sep: "key p \<noteq> key q"
    if a: "p \<in> set (g (n, r))" and b: "q \<in> set (concat (map g (enumerate (Suc n) rows)))"
    for p q
  proof -
    from a have "key p = f n" by (rule keys)
    moreover have "\<exists>idx. Suc n \<le> idx \<and> idx < Suc n + length rows \<and> key q = f idx"
    proof (rule enumerate_concat_keys[where g = g and key = key and f = f])
      show "\<And>idx r p. p \<in> set (g (idx, r)) \<Longrightarrow> key p = f idx" by (rule keys)
      show "q \<in> set (concat (map g (enumerate (Suc n) rows)))" by (rule b)
    qed
    then obtain idx where "Suc n \<le> idx" "key q = f idx" by blast
    moreover note inj
    ultimately show ?thesis by (auto dest: injD)
  qed
  show ?case using d1 Cons.IH[of "Suc n"] sep by auto
qed

lemma inj_product_id: "inj (\<lambda>idx. BASE_PRODUCT_ID + int idx)"
  by (rule injI) simp

lemma inj_product_id_str: "inj (\<lambda>idx. str_nat (nat (BASE_PRODUCT_ID + int idx)))"
proof (rule injI)
  fix x y assume "str_nat (nat (BASE_PRODUCT_ID + int x)) = str_nat (nat (BASE_PRODUCT_ID + int y))"
  then have "nat (BASE_PRODUCT_ID + int x) = nat (BASE_PRODUCT_ID + int y)" by (rule str_nat_inj)
  then show "x = y" by (simp add: BASE_PRODUCT_ID_def)
qed

lemma generic_product_cases:
  "generic_product sh (idx, r) = [] \<or>
   (\<exists>p. generic_product sh (idx, r) = [p] \<and> shopify_product_id p = BASE_PRODUCT_ID + int idx \<and>
        map var_id (raw_variants (sp_raw_data p)) = [BASE_VARIANT_ID + int idx * 100] \<and>
        map var_title (raw_variants (sp_raw_data p)) = [''Default''])"
  by (simp add: generic_product_def Let_def)

lemma generic_product_id:
  "p \<in> set (generic_product sh (idx, r)) \<Longrightarrow> shopify_product_id p = BASE_PRODUCT_ID + int idx"
  using generic_product_cases[of sh idx r] by auto

lemma generic_product_one: "length (generic_product sh x) \<le> 1"
  using generic_product_cases[of sh "fst x" "snd x"] by auto

lemma generic_product_variant:
  "p \<in> set (generic_product sh (idx, r)) \<Longrightarrow>
   map var_id (raw_variants (sp_raw_data p)) = [BASE_VARIANT_ID + int idx * 100] \<and>
   map var_title (raw_variants (sp_raw_data p)) = [''Default'']"
  using generic_product_cases[of sh idx r] by auto

lemma set_concat_enumerate:
  "p \<in> set (concat (map g (enumerate n rows))) \<Longrightarrow>
   \<exists>idx. n \<le> idx \<and> idx < n + length rows \<and> p \<in> set (g (idx, rows ! (idx - n)))"
proof (induction rows arbitrary: n)
  case Nil
  then show ?case by simp
next
  case (Cons r rows)
  from Cons.prems have "p \<in> set (g (n, r)) \<or> p \<in> set (concat (map g (enumerate (Suc n) rows)))"
    by simp
  then show ?case
  proof
    assume "p \<in> set (g (n, r))"
    then show ?thesis by (intro exI[of _ n]) simp
  next
    assume "p \<in> set (concat (map g (enumerate (Suc n) rows)))"
    then obtain idx where i: "Suc n \<le> idx" "idx < Suc n + length rows"
      "p \<in> set (g (idx, rows ! (idx - Suc n)))"
      using Cons.IH by blast
    then have "(r # rows) ! (idx - n) = rows ! (idx - Suc n)"
      by (simp add: nth_Cons') 
    with i show ?thesis by (intro exI[of _ idx]) simp
  qed
qed

lemma generic_products_ids:
  assumes "p \<in> set (build_shopify_products_generic sh rows)"
  shows "\<exists>idx < length rows. shopify_product_id p = BASE_PRODUCT_ID + int idx \<and>
           map var_id (raw_variants (sp_raw_data p)) = [BASE_VARIANT_ID + int idx * 100] \<and>
           map var_title (raw_variants (sp_raw_data p)) = [''Default'']"
proof -
  obtain idx where "idx < length rows" "p \<in> set (generic_product sh (idx, rows ! idx))"
    using set_concat_enumerate[of p "generic_product sh" 0 rows] assms
    by (auto simp: build_shopify_products_generic_def)
  then show ?thesis using generic_product_id generic_product_variant by blast
qed

lemma generic_products_distinct:
  "distinct (map shopify_product_id (build_shopify_products_generic sh rows))"
  unfolding build_shopify_products_generic_def
  by (rule enumerate_concat_distinct[where f = "\<lambda>idx. BASE_PRODUCT_ID + int idx",
        OF generic_product_id inj_product_id generic_product_one])

lemma woocommerce_product_cases:
  "woocommerce_product sh (idx, r) = [] \<or>
   (\<exists>p. woocommerce_product sh (idx, r) = [p] \<and> wc_product_id p = BASE_PRODUCT_ID + int idx \<and>
        wcr_variations (wc_raw_data p) = [])"
  by (simp add: woocommerce_product_def Let_def)

lemma woocommerce_product_id:
  "p \<in> set (woocommerce_product sh (idx, r)) \<Longrightarrow> wc_product_id p = BASE_PRODUCT_ID + int idx"
  using woocommerce_product_cases[of sh idx r] by auto

lemma woocommerce_product_one: "length (woocommerce_product sh x) \<le> 1"
  using woocommerce_product_cases[of sh "fst x" "snd x"] by auto

lemma woocommerce_products_ids:
  assumes "p \<in> set (woocommerce_products sh rows)"
  shows "\<exists>idx < length rows. wc_product_id p = BASE_PRODUCT_ID + int idx \<and>
           wcr_variations (wc_raw_data p) = []"
proof -
  obtain idx where "idx < length rows" "p \<in> set (woocommerce_product sh (idx, rows ! idx))"
    using set_concat_enumerate[of p "woocommerce_product sh" 0 rows] assms
    by (auto simp: woocommerce_products_def)
  then show ?thesis using woocommerce_product_cases[of sh idx "rows ! idx"] by auto
qed

lemma woocommerce_products_distinct:
  "distinct (map wc_product_id (woocommerce_products sh rows))"
  unfolding woocommerce_products_def
  by (rule enumerate_concat_distinct[where f = "\<lambda>idx. BASE_PRODUCT_ID + int idx",
        OF woocommerce_product_id inj_product_id woocommerce_product_one])

lemma squarespace_product_cases:
  "squarespace_product sh tf z (idx, r) = [] \<or>
   (\<exists>p. squarespace_product sh tf z (idx, r) = [p] \<and>
        squarespace_product_id p = str_nat (nat (BASE_PRODUCT_ID + int idx)))"
  by (simp add: squarespace_product_def Let_def)

lemma squarespace_product_id:
  "p \<in> set (squarespace_product sh tf z (idx, r)) \<Longrightarrow>
   squarespace_product_id p = str_nat (nat (BASE_PRODUCT_ID + int idx))"
  using squarespace_product_cases[of sh tf z idx r] by auto

lemma squarespace_product_one: "length (squarespace_product sh tf z x) \<le> 1"
  using squarespace_product_cases[of sh tf z "fst x" "snd x"] by auto

lemma squarespace_products_ids:
  assumes "p \<in> set (squarespace_products sh tf z rows)"
  shows "\<exists>idx < length rows. squarespace_product_id p = str_nat (nat (BASE_PRODUCT_ID + int idx))"
proof -
  obtain idx where "idx < length rows" "p \<in> set (squarespace_product sh tf z (idx, rows ! idx))"
    using set_concat_enumerate[of p "squarespace_product sh tf z" 0 rows] assms
    by (auto simp: squarespace_products_def)
  then show ?thesis
    using squarespace_product_id[of p sh tf z idx "rows ! idx"] by auto
qed

lemma squarespace_products_distinct:
  "distinct (map squarespace_product_id (squarespace_products sh tf z rows))"
  unfolding squarespace_products_def
  by (rule enumerate_concat_distinct[where f = "\<lambda>idx. str_nat (nat (BASE_PRODUCT_ID + int idx))",
        OF squarespace_product_id inj_product_id_str squarespace_product_one])

lemma build_variants_length:
  "length (build_variants pid idx vidx rows) =
   length (filter (\<lambda>r. get_col r [''Variant Price''] \<noteq> []) rows)"
  by (induction rows arbitrary: vidx) (simp_all add: Let_def)

lemma build_variants_ids:
  "j < length (build_variants pid idx vidx rows) \<Longrightarrow>
   var_id (build_variants pid idx vidx rows ! j) =
     BASE_VARIANT_ID + int idx * 100 + int (vidx + j)"
proof (induction rows arbitrary: vidx j)
  case Nil
  then show ?case by simp
next
  case (Cons r rows)
  show ?case
  proof (cases "get_col r [''Variant Price''] = []")
    case True
    then show ?thesis using Cons by (simp add: Let_def)
  next
    case False
    show ?thesis
    proof (cases j)
      case 0
      then show ?thesis using False by (simp add: Let_def make_variant_def)
    next
      case (Suc k)
      then have "k < length (build_variants pid idx (vidx + 1) rows)"
        using Cons.prems False by (simp add: Let_def)
      from Cons.IH[OF this] show ?thesis using False Suc by (simp add: Let_def)
    qed
  qed
qed

lemma grouped_product_fields:
  "shopify_product_id (grouped_product sh (idx, g)) = BASE_PRODUCT_ID + int idx"
  "raw_variants (sp_raw_data (grouped_product sh (idx, g))) =
     build_variants (BASE_PRODUCT_ID + int idx) idx 0 (snd g)"
  by (cases g; simp add: grouped_product_def Let_def)+

lemma grouped_products_nth:
  assumes "i < length (group_rows rows [])"
  shows "build_shopify_products_from_csv sh rows ! i =
         grouped_product sh (i, group_rows rows [] ! i)"
  using assms by (simp add: build_shopify_products_from_csv_def nth_enumerate_eq)

lemma grouped_products_length:
  "length (build_shopify_products_from_csv sh rows) = length (group_rows rows [])"
  by (simp add: build_shopify_products_from_csv_def)

lemma grouped_products_id_list:
  "map shopify_product_id (build_shopify_products_from_csv sh rows) =
   map (\<lambda>i. BASE_PRODUCT_ID + int i) [0..<length (group_rows rows [])]"
  by (rule nth_equalityI)
     (simp_all add: grouped_products_length grouped_products_nth grouped_product_fields)

lemma grouped_products_distinct:
  "distinct (map shopify_product_id (build_shopify_products_from_csv sh rows))"
  unfolding grouped_products_id_list
  by (simp add: distinct_map inj_on_def)

lemmas get_col_eval =
  row_lower_def strip_def lstrip_def rstrip_def lower_def lower_char_def is_space_def Let_def

lemma blue_shirt_groups:
  "group_rows blue_shirt_rows [] = [(''blue-shirt'', blue_shirt_rows)]"
  by (simp add: blue_shirt_rows_def get_col_eval)

lemma blue_shirt_prices:
  "filter (\<lambda>r. get_col r [''Variant Price''] \<noteq> []) blue_shirt_rows = blue_shirt_rows"
  by (simp add: blue_shirt_rows_def get_col_eval)

lemma add_to_group_keys: "fst ` set (add_to_group h r g) = insert h (fst ` set g)"
  by (induction h r g rule: add_to_group.induct) auto

lemma add_to_group_distinct:
  "distinct (map fst g) \<Longrightarrow> distinct (map fst (add_to_group h r g))"
  by (induction h r g rule: add_to_group.induct) (auto simp: add_to_group_keys)

lemma add_to_group_map_of:
  "map_of (add_to_group h r g) =
   (map_of g)(h \<mapsto> (case map_of g h of None \<Rightarrow> [] | Some rs \<Rightarrow> rs) @ [r])"
proof (induction g)
  case Nil
  then show ?case by simp
next
  case (Cons kv g)
  obtain k rs where kv: "kv = (k, rs)" by (cases kv)
  show ?case unfolding kv using Cons by (auto simp: fun_eq_iff)
qed

lemma group_rows_distinct:
  "distinct (map fst g) \<Longrightarrow> distinct (map fst (group_rows rows g))"
  by (induction rows arbitrary: g) (simp_all add: Let_def add_to_group_distinct)

lemma group_rows_map_of:
  "map_of (group_rows rows g) h =
   (if rows_of_handle h rows = [] then map_of g h
    else Some ((case map_of g h of None \<Rightarrow> [] | Some rs \<Rightarrow> rs) @ rows_of_handle h rows))"
proof (induction rows arbitrary: g)
  case Nil
  then show ?case by (simp add: rows_of_handle_def)
next
  case (Cons r rows)
  let ?h = "get_col r [''Handle'']"
  show ?case
  proof (cases "?h = []")
    case True
    then have "rows_of_handle h (r # rows) = rows_of_handle h rows"
      by (auto simp: rows_of_handle_def)
    then show ?thesis using True Cons[of g] by (simp add: Let_def)
  next
    case False
    then have g: "group_rows (r # rows) g = group_rows rows (add_to_group ?h r g)"
      by (simp add: Let_def)
    show ?thesis
    proof (cases "h = ?h")
      case True
      then have "rows_of_handle h (r # rows) = r # rows_of_handle h rows"
        using False by (simp add: rows_of_handle_def)
      then show ?thesis
        unfolding g Cons[of "add_to_group ?h r g"] add_to_group_map_of using True by simp
    next
      case ne: False
      then have "rows_of_handle h (r # rows) = rows_of_handle h rows"
        by (auto simp: rows_of_handle_def)
      then show ?thesis
        unfolding g Cons[of "add_to_group ?h r g"] add_to_group_map_of using ne by simp
    qed
  qed
qed

lemma group_rows_spec:
  assumes "(h, rs) \<in> set (group_rows rows [])"
  shows "rs = rows_of_handle h rows \<and> rs \<noteq> [] \<and> h \<noteq> []"
proof -
  have "distinct (map fst (group_rows rows []))" by (rule group_rows_distinct) simp
  then have "map_of (group_rows rows []) h = Some rs" using assms by (rule map_of_is_SomeI)
  then have "rs = rows_of_handle h rows" "rows_of_handle h rows \<noteq> []"
    by (auto simp: group_rows_map_of split: if_splits)
  moreover from this have "h \<noteq> []" by (auto simp: rows_of_handle_def)
  ultimately show ?thesis by simp
qed

lemma grouped_product_handle: "sp_handle (grouped_product sh (idx, h, rows)) = h"
  by (simp add: grouped_product_def Let_def)

lemma grouped_product_variants_by_handle:
  assumes "i < length (build_shopify_products_from_csv sh rows)"
  shows "length (raw_variants (sp_raw_data (build_shopify_products_from_csv sh rows ! i))) =
         length (filter (\<lambda>r. get_col r [''Variant Price''] \<noteq> [])
                   (rows_of_handle (sp_handle (build_shopify_products_from_csv sh rows ! i)) rows))"
proof -
  from assms have g: "i < length (group_rows rows [])" by (simp add: grouped_products_length)
  obtain h rs where hr: "group_rows rows [] ! i = (h, rs)" by (cases "group_rows rows [] ! i")
  then have "(h, rs) \<in> set (group_rows rows [])" using g by (metis nth_mem)
  then have rs: "rs = rows_of_handle h rows" using group_rows_spec by blast
  show ?thesis
    by (simp add: grouped_products_nth[OF g] hr grouped_product_fields grouped_product_handle
        build_variants_length rs)
qed

lemma concat_enumerate_filter:
  assumes "\<And>idx r. map key (g (idx, r)) = (if P r then [f idx] else [])"
  shows "map key (concat (map g (enumerate n rows))) =
         map f (filter (\<lambda>i. P (rows ! (i - n))) [n..<n + length rows])"
proof (induction rows arbitrary: n)
  case Nil
  then show ?case by simp
next
  case (Cons r rows)
  let ?L = "[Suc n..<Suc n + length rows]"
  have u: "[n..<n + length (r # rows)] = n # ?L"
    by (subst upt_rec) simp
  have t: "filter (\<lambda>i. P ((r # rows) ! (i - n))) ?L = filter (\<lambda>i. P (rows ! (i - Suc n))) ?L"
    by (rule filter_cong) (auto simp: nth_Cons' Suc_diff_le)
  have "map key (concat (map g (enumerate n (r # rows)))) =
        map key (g (n, r)) @ map key (concat (map g (enumerate (Suc n) rows)))"
    by simp
  also have "\<dots> = (if P r then [f n] else []) @ map f (filter (\<lambda>i. P (rows ! (i - Suc n))) ?L)"
    by (simp only: assms Cons.IH)
  also have "\<dots> = map f (filter (\<lambda>i. P ((r # rows) ! (i - n))) (n # ?L))"
    unfolding filter.simps t by simp
  finally show ?case unfolding u .
qed

lemma concat_enumerate_rows_with:
  assumes "\<And>idx r. map key (g (idx, r)) = (if get_col r keys \<noteq> [] then [f idx] else [])"
  shows "map key (concat (map g (enumerate 0 rows))) = map f (rows_with keys rows)"
  using concat_enumerate_filter[where key = key and g = g and f = f
      and P = "\<lambda>r. get_col r keys \<noteq> []" and n = 0 and rows = rows, OF assms]
  by (simp add: rows_with_def)

lemma generic_products_id_list:
  "map shopify_product_id (build_shopify_products_generic sh rows) =
   map (\<lambda>i. BASE_PRODUCT_ID + int i)
     (rows_with [''title'', ''name'', ''product_name'', ''product_title''] rows)"
  unfolding build_shopify_products_generic_def
  by (rule concat_enumerate_rows_with) (simp add: generic_product_def Let_def)

lemma generic_products_variant_ids:
  "map (\<lambda>p. map var_id (raw_variants (sp_raw_data p))) (build_shopify_products_generic sh rows) =
   map (\<lambda>i. [BASE_VARIANT_ID + int i * 100])
     (rows_with [''title'', ''name'', ''product_name'', ''product_title''] rows)"
  unfolding build_shopify_products_generic_def
  by (rule concat_enumerate_rows_with) (simp add: generic_product_def Let_def)

lemma woocommerce_products_id_list:
  "map wc_product_id (woocommerce_products sh rows) =
   map (\<lambda>i. BASE_PRODUCT_ID + int i)
     (rows_with [''name'', ''title'', ''product_name'', ''product_title''] rows)"
  unfolding woocommerce_products_def
  by (rule concat_enumerate_rows_with) (simp add: woocommerce_product_def Let_def)

lemma squarespace_products_id_list:
  "map squarespace_product_id (squarespace_products sh tf z rows) =
   map (\<lambda>i. str_nat (nat (BASE_PRODUCT_ID + int i)))
     (rows_with [''title'', ''name'', ''product_name''] rows)"
  unfolding squarespace_products_def
  by (rule concat_enumerate_rows_with) (simp add: squarespace_product_def Let_def)

lemma add_to_group_key_list:
  "map fst (add_to_group h r g) = (if h \<in> set (map fst g) then map fst g else map fst g @ [h])"
  by (induction h r g rule: add_to_group.induct) auto

lemma remdups_known:
  "h \<in> set ys \<Longrightarrow> remdups (xs @ h # ys) = remdups (xs @ ys)"
  by (induction xs) auto

lemma group_rows_key_list:
  "distinct (map fst g) \<Longrightarrow>
   map fst (group_rows rows g) =
     rev (remdups (rev (map fst g @
       filter (\<lambda>h. h \<noteq> []) (map (\<lambda>r. get_col r [''Handle'']) rows))))"
proof (induction rows arbitrary: g)
  case Nil
  then show ?case by (simp add: distinct_remdups_id)
next
  case (Cons r rows)
  let ?h = "get_col r [''Handle'']"
  let ?hs = "filter (\<lambda>h. h \<noteq> []) (map (\<lambda>r. get_col r [''Handle'']) rows)"
  show ?case
  proof (cases "?h = []")
    case True
    then show ?thesis using Cons by (simp add: Let_def)
  next
    case False
    have d: "distinct (map fst (add_to_group ?h r g))"
      using Cons.prems by (rule add_to_group_distinct)
    have "map fst (group_rows (r # rows) g) =
          rev (remdups (rev (map fst (add_to_group ?h r g) @ ?hs)))"
      using False Cons.IH[OF d] by (simp add: Let_def)
    also have "\<dots> = rev (remdups (rev (map fst g @ ?h # ?hs)))"
    proof (cases "?h \<in> set (map fst g)")
      case True
      then have "?h \<in> set (rev (map fst g))" by simp
      from remdups_known[OF this, of "rev ?hs"] True
      show ?thesis by (simp add: add_to_group_key_list)
    next
      case False
      then show ?thesis by (simp add: add_to_group_key_list)
    qed
    finally show ?thesis using False by simp
  qed
qed

lemma grouped_products_handles:
  "map sp_handle (build_shopify_products_from_csv sh rows) = handles_in_order rows"
proof -
  have "map sp_handle (build_shopify_products_from_csv sh rows) = map fst (group_rows rows [])"
    by (rule nth_equalityI)
       (auto simp: grouped_products_length grouped_products_nth grouped_product_def Let_def
          split: prod.splits)
  then show ?thesis using group_rows_key_list[of "[]" rows] by (simp add: handles_in_order_def)
qed

lemma build_variants_prices:
  "map var_price (build_variants pid idx vidx rows) =
   filter (\<lambda>x. x \<noteq> []) (map (\<lambda>r. get_col r [''Variant Price'']) rows)"
  by (induction rows arbitrary: vidx) (simp_all add: Let_def make_variant_def)

lemma grouped_product_variant_prices:
  assumes "i < length (build_shopify_products_from_csv sh rows)"
  shows "map var_price (raw_variants (sp_raw_data (build_shopify_products_from_csv sh rows ! i))) =
         filter (\<lambda>x. x \<noteq> []) (map (\<lambda>r. get_col r [''Variant Price''])
           (rows_of_handle (sp_handle (build_shopify_products_from_csv sh rows ! i)) rows))"
proof -
  from assms have g: "i < length (group_rows rows [])" by (simp add: grouped_products_length)
  obtain h rs where hr: "group_rows rows [] ! i = (h, rs)" by (cases "group_rows rows [] ! i")
  then have "(h, rs) \<in> set (group_rows rows [])" using g by (metis nth_mem)
  then have rs: "rs = rows_of_handle h rows" using group_rows_spec by blast
  show ?thesis
    by (simp add: grouped_products_nth[OF g] hr grouped_product_fields grouped_product_handle
        build_variants_prices rs)
qed

lemma handles_blue_shirt: "handles_in_order blue_shirt_rows = [''blue-shirt'']"
  by (simp add: handles_in_order_def blue_shirt_rows_def get_col_eval)

lemma row_lower_title:
  "row_lower [(''title'', ''bad'')] k = (if k = ''title'' then Some ''bad'' else None)"
  by (simp add: get_col_eval)

lemma strip_bad: "strip ''bad'' = ''bad''" "strip [] = []"
  by (simp_all add: get_col_eval)

lemma get_col_title_row:
  "get_col [(''title'', ''bad'')] keys =
     (if ''title'' \<in> set (map (\<lambda>k. strip (lower k)) keys) then ''bad'' else [])"
  by (induction keys) (simp_all add: row_lower_title strip_bad Let_def)

lemma key_evals:
  "strip (lower ''title'') = ''title''"
  "strip (lower ''name'') = ''name''"
  "strip (lower ''product_name'') = ''product_name''"
  "strip (lower ''product_title'') = ''product_title''"
  "strip (lower ''handle'') = ''handle''"
  "strip (lower ''slug'') = ''slug''"
  "strip (lower ''url'') = ''url''"
  "strip (lower ''price'') = ''price''"
  "strip (lower ''variant_price'') = ''variant_price''"
  "strip (lower ''amount'') = ''amount''"
  "strip (lower ''description'') = ''description''"
  "strip (lower ''body'') = ''body''"
  "strip (lower ''body_html'') = ''body_html''"
  "strip (lower ''body (html)'') = ''body (html)''"
  "strip (lower ''vendor'') = ''vendor''"
  "strip (lower ''brand'') = ''brand''"
  "strip (lower ''type'') = ''type''"
  "strip (lower ''product_type'') = ''product_type''"
  "strip (lower ''category'') = ''category''"
  "strip (lower ''tags'') = ''tags''"
  "strip (lower ''image'') = ''image''"
  "strip (lower ''image_url'') = ''image_url''"
  "strip (lower ''featured_image'') = ''featured_image''"
  "strip (lower ''image_src'') = ''image_src''"
  "strip (lower ''compare_at_price'') = ''compare_at_price''"
  "strip (lower ''original_price'') = ''original_price''"
  "strip (lower ''compare_price'') = ''compare_price''"
  by (simp_all add: get_col_eval)

lemma get_col_blank_row: "get_col [(''title'', [])] keys = []"
  by (induction keys) (simp_all add: get_col_eval)

lemma rows_with_gap_rows:
  "''title'' \<in> set (map (\<lambda>k. strip (lower k)) keys) \<Longrightarrow> rows_with keys gap_rows = [1]"
  by (simp add: rows_with_def gap_rows_def get_col_title_row get_col_blank_row
      del: get_col.simps)

lemma rows_with_bad_rows:
  "''title'' \<in> set (map (\<lambda>k. strip (lower k)) keys) \<Longrightarrow> rows_with keys bad_rows = [0]"
  by (simp add: rows_with_def bad_rows_def get_col_title_row del: get_col.simps)

lemma title_keys:
  "''title'' \<in> set (map (\<lambda>k. strip (lower k)) [''title'', ''name'', ''product_name'', ''product_title''])"
  "''title'' \<in> set (map (\<lambda>k. strip (lower k)) [''name'', ''title'', ''product_name'', ''product_title''])"
  "''title'' \<in> set (map (\<lambda>k. strip (lower k)) [''title'', ''name'', ''product_name''])"
  by (simp_all add: key_evals)

lemma char_of_digits:
  "char_of (48 :: nat) = CHR ''0''" "char_of (49 :: nat) = CHR ''1''"
  "char_of (50 :: nat) = CHR ''2''" "char_of (57 :: nat) = CHR ''9''"
  by code_simp+

lemma str_nat_base:
  "str_nat (nat BASE_PRODUCT_ID) = ''9900000000001''"
  "str_nat (nat (BASE_PRODUCT_ID + 1)) = ''9900000000002''"
  by (simp_all add: BASE_PRODUCT_ID_def str_nat.simps char_of_digits)

lemma bad_rows_ids:
  "map shopify_product_id (shopify_products sh bad_rows) = [BASE_PRODUCT_ID + int 0]"
  "map wc_product_id (woocommerce_products sh bad_rows) = [BASE_PRODUCT_ID + int 0]"
  "map squarespace_product_id (squarespace_products sh tf z bad_rows) =
     [str_nat (nat (BASE_PRODUCT_ID + int 0))]"
proof -
  have nh: "\<not> has_handle bad_rows" by (simp add: has_handle_def bad_rows_def)
  show "map shopify_product_id (shopify_products sh bad_rows) = [BASE_PRODUCT_ID + int 0]"
    unfolding shopify_products_def using nh
    by (simp only: if_False generic_products_id_list rows_with_bad_rows[OF title_keys(1)] list.map)
  show "map wc_product_id (woocommerce_products sh bad_rows) = [BASE_PRODUCT_ID + int 0]"
    by (simp only: woocommerce_products_id_list rows_with_bad_rows[OF title_keys(2)] list.map)
  show "map squarespace_product_id (squarespace_products sh tf z bad_rows) =
     [str_nat (nat (BASE_PRODUCT_ID + int 0))]"
    by (simp only: squarespace_products_id_list rows_with_bad_rows[OF title_keys(3)] list.map)
qed

lemma length_one_of_map: "map f xs = [y] \<Longrightarrow> length xs = 1"
  by (cases xs) auto


section \<open>Properties of storage and ingestion\<close>

lemma convert_loop_all_skipped:
  assumes "\<forall>p \<in> set paths. gcs p = None \<or> (\<exists>c. gcs p = Some c \<and> extract_text env p c = None)"
  shows "convert_loop env gcs paths (docs, skipped) = (docs, skipped @ paths)"
  using assms
proof (induction paths arbitrary: skipped)
  case Nil
  then show ?case by simp
next
  case (Cons p paths)
  then have rest: "convert_loop env gcs paths (docs, skipped @ [p]) = (docs, (skipped @ [p]) @ paths)"
    by (intro Cons.IH) simp
  from Cons.prems have "gcs p = None \<or> (\<exists>c. gcs p = Some c \<and> extract_text env p c = None)"
    by simp
  then show ?case
  proof
    assume "gcs p = None"
    then show ?thesis using rest by simp
  next
    assume "\<exists>c. gcs p = Some c \<and> extract_text env p c = None"
    then have "convert_single_document env gcs p = Inl ValueError" "gcs p \<noteq> None"
      by (auto simp: convert_single_document_def)
    then show ?thesis using rest by simp
  qed
qed

text \<open>
  Claim C10: when every source path of a conversion run is skipped (the blob is missing,
  or its extraction raises), \<open>convert_documents\<close> returns a summary with no NDJSON path,
  document count 0 and all paths listed as skipped; the blob store is unchanged (nothing
  is uploaded) and the database is unchanged (the storage step with its delete of the
  merchant's rows is not reached).
\<close>

theorem C10_all_skipped_no_writes:
  assumes "\<forall>p \<in> set document_paths.
             gcs p = None \<or> (\<exists>c. gcs p = Some c \<and> extract_text env p c = None)"
  shows "convert_documents env gcs db merchant_id document_paths =
           (gcs, db,
            Inr \<lparr> ndjson_path = None, document_count = 0, chunks_stored = None,
                  skipped_files = Some document_paths \<rparr>)"
  using convert_loop_all_skipped[OF assms, of "[]" "[]"]
  by (simp add: convert_documents_def)

theorem C10_all_skipped_no_writes_witness:
  "convert_documents demo_env [''kb/a.pdf'' \<mapsto> ''corrupt''] old_db ''m1''
     [''kb/a.pdf'', ''kb/b.pdf''] =
     ([''kb/a.pdf'' \<mapsto> ''corrupt''], old_db,
      Inr \<lparr> ndjson_path = None, document_count = 0, chunks_stored = None,
            skipped_files = Some [''kb/a.pdf'', ''kb/b.pdf''] \<rparr>)"
proof -
  have "\<forall>p \<in> set [''kb/a.pdf'', ''kb/b.pdf''].
          [''kb/a.pdf'' \<mapsto> ''corrupt''] p = None \<or>
          (\<exists>c. [''kb/a.pdf'' \<mapsto> ''corrupt''] p = Some c \<and> extract_text demo_env p c = None)"
    by (simp add: extract_text_def demo_env_def suffix_to_prefix)
  then show ?thesis by (rule C10_all_skipped_no_writes)
qed

subsection \<open>The insert loops\<close>

lemma documents_of_small_text:
  "length text_content \<le> 1000 \<Longrightarrow>
   documents_of_text doc_path text_content =
     [\<lparr> doc_id = sanitize_id (basename doc_path) 0, doc_content = text_content,
        doc_title = basename doc_path, doc_source = doc_path,
        doc_filename = basename doc_path, chunk_index = 0, total_chunks = 1 \<rparr>]"
  by (simp add: documents_of_text_def split_text_def make_document_def Let_def)

lemma batches_small: "xs \<noteq> [] \<Longrightarrow> length xs \<le> 25 \<Longrightarrow> batches xs = [xs]"
  by (simp add: batches_unfold batches_Nil batch_size_def)

lemma fresh_id_nonzero: "fresh_id env t ids \<noteq> 0" "0 < fresh_id env t ids"
  by (simp_all add: fresh_id_def)

lemma select_product_id_found:
  assumes "\<forall>r \<in> set tbl. pr_id r \<noteq> 0"
    and "r0 \<in> set tbl" "squarespace_product_id (pr_product r0) = pid" "pr_merchant_id r0 = m"
  shows "\<exists>i. select_product_id pid m tbl = Some i \<and> i \<noteq> 0"
proof -
  let ?f = "filter (\<lambda>r. squarespace_product_id (pr_product r) = pid \<and> pr_merchant_id r = m) tbl"
  have "r0 \<in> set ?f" using assms by simp
  then obtain r rs where f: "?f = r # rs" by (cases ?f) auto
  then have "r \<in> set ?f" by simp
  then have "r \<in> set tbl" by simp
  then have "pr_id r \<noteq> 0" using assms(1) by blast
  then show ?thesis using f by (simp add: select_product_id_def)
qed

lemma insert_squarespace_variants:
  "\<forall>r \<in> set tbl. pr_id r \<noteq> 0 \<Longrightarrow>
   insert_squarespace (fresh_id env t) fails store_id merchant_id pairs (tbl, vs, n) = Inr (tbl', vs', n') \<Longrightarrow>
   length vs' = length vs + length pairs"
proof (induction pairs arbitrary: tbl vs n)
  case Nil
  then show ?case by simp
next
  case (Cons pe pairs)
  obtain p e where pe: "pe = (p, e)" by (cases pe)
  from Cons.prems pe have nf: "\<not> fails p" by (auto split: if_splits)
  let ?row = "\<lparr> pr_id = fresh_id env t (map pr_id tbl), pr_product = p, pr_store_id = store_id,
                pr_merchant_id = merchant_id, pr_embedding = e \<rparr>"
  let ?tbl = "tbl @ [?row]"
  have nz: "\<forall>r \<in> set ?tbl. pr_id r \<noteq> 0"
    using Cons.prems(1) by (auto simp: fresh_id_nonzero)
  obtain i where i: "select_product_id (squarespace_product_id p) merchant_id ?tbl = Some i" "i \<noteq> 0"
    using select_product_id_found[OF nz, of ?row "squarespace_product_id p" merchant_id] by auto
  let ?v = "\<lparr> vr_product_id = i, vr_variant_id = ''var-'' @ squarespace_product_id p,
              vr_sku = sq_sku p, vr_price = sq_price p, vr_stock = sq_stock p,
              vr_option1_name = ''Default'', vr_option1_value = ''Default'' \<rparr>"
  from Cons.prems(2) pe nf i
  have "insert_squarespace (fresh_id env t) fails store_id merchant_id pairs (?tbl, vs @ [?v], n + 1) =
          Inr (tbl', vs', n')"
    by (simp add: Let_def)
  from Cons.IH[OF nz this] show ?case by simp
qed

lemma store_batch_rows:
  "store_batch fails merchant_id pairs (tbl, n) = Inr (tbl', n') \<Longrightarrow>
   tbl' = tbl @ stored_chunks merchant_id pairs \<and>
   n' = n + length (stored_chunks merchant_id pairs)"
proof (induction pairs arbitrary: tbl n)
  case Nil
  then show ?case by (simp add: stored_chunks_def)
next
  case (Cons ce pairs)
  obtain c e where ce: "ce = (c, e)" by (cases ce)
  show ?case
  proof (cases e)
    case None
    with Cons.prems ce have "store_batch fails merchant_id pairs (tbl, n) = Inr (tbl', n')"
      by simp
    from Cons.IH[OF this] show ?thesis using ce None by (simp add: stored_chunks_def)
  next
    case (Some v)
    with Cons.prems ce have nf: "\<not> fails (chunk_row_of merchant_id c v)"
      by (auto split: if_splits)
    with Cons.prems ce Some
    have "store_batch fails merchant_id pairs (tbl @ [chunk_row_of merchant_id c v], n + 1) =
            Inr (tbl', n')"
      by simp
    from Cons.IH[OF this] show ?thesis using ce Some by (simp add: stored_chunks_def)
  qed
qed

lemma insert_products_appends:
  "insert_products new_id fails sid m pairs (tbl, n) = Inr (tbl', n') \<Longrightarrow>
   \<exists>new. tbl' = tbl @ new \<and> map (\<lambda>r. (pr_product r, pr_embedding r)) new = pairs \<and>
         (\<forall>r \<in> set new. pr_merchant_id r = m \<and> pr_store_id r = sid) \<and>
         n' = n + length pairs"
proof (induction pairs arbitrary: tbl n)
  case Nil
  then show ?case by simp
next
  case (Cons pe pairs)
  obtain p e where pe: "pe = (p, e)" by (cases pe)
  from Cons.prems pe have nf: "\<not> fails p" by (auto split: if_splits)
  let ?row = "\<lparr> pr_id = new_id (map pr_id tbl), pr_product = p, pr_store_id = sid,
                pr_merchant_id = m, pr_embedding = e \<rparr>"
  from Cons.prems pe nf
  have "insert_products new_id fails sid m pairs (tbl @ [?row], n + 1) = Inr (tbl', n')"
    by simp
  from Cons.IH[OF this] obtain new where new: "tbl' = (tbl @ [?row]) @ new"
    "map (\<lambda>r. (pr_product r, pr_embedding r)) new = pairs"
    "\<forall>r \<in> set new. pr_merchant_id r = m \<and> pr_store_id r = sid"
    "n' = n + 1 + length pairs" by auto
  show ?case by (rule exI[of _ "?row # new"]) (use new pe in simp)
qed

lemma insert_products_ok:
  "\<forall>pe \<in> set pairs. \<not> fails (fst pe) \<Longrightarrow>
   \<exists>st'. insert_products new_id fails sid m pairs st = Inr st'"
proof (induction pairs arbitrary: st)
  case Nil
  then show ?case by simp
next
  case (Cons pe pairs)
  obtain p e where pe: "pe = (p, e)" by (cases pe)
  obtain tbl n where st: "st = (tbl, n)" by (cases st)
  from Cons.prems pe have nf: "\<not> fails p" and rest: "\<forall>pe \<in> set pairs. \<not> fails (fst pe)"
    by simp_all
  from Cons.IH[OF rest] show ?case unfolding pe st using nf by simp
qed

lemma insert_products_fails:
  assumes "(p, e) \<in> set pairs" "fails p"
  shows "insert_products new_id fails sid m pairs st = Inl StorageError"
  using assms(1)
proof (induction pairs arbitrary: st)
  case Nil
  then show ?case by simp
next
  case (Cons pe pairs)
  obtain tbl n where st: "st = (tbl, n)" by (cases st)
  obtain p' e' where pe: "pe = (p', e')" by (cases pe)
  show ?case
  proof (cases "fails p'")
    case True
    then show ?thesis unfolding st pe by simp
  next
    case False
    with Cons.prems pe assms(2) have "(p, e) \<in> set pairs" by auto
    from Cons.IH[OF this] show ?thesis unfolding st pe using False by simp
  qed
qed

lemma filter_merchant_append:
  assumes "\<forall>r \<in> set new. key r = m"
  shows "filter (\<lambda>r. key r = m) (filter (\<lambda>r. key r \<noteq> m) tbl0 @ new) = new"
    and "filter (\<lambda>r. key r \<noteq> m) (filter (\<lambda>r. key r \<noteq> m) tbl0 @ new) =
         filter (\<lambda>r. key r \<noteq> m) tbl0"
proof -
  have a: "filter (\<lambda>r. key r = m) new = new" using assms by (simp add: filter_id_conv)
  have b: "filter (\<lambda>r. key r \<noteq> m) new = []" using assms by (simp add: filter_empty_conv)
  have c: "filter (\<lambda>r. key r = m) (filter (\<lambda>r. key r \<noteq> m) tbl0) = []"
    by (simp add: filter_empty_conv)
  show "filter (\<lambda>r. key r = m) (filter (\<lambda>r. key r \<noteq> m) tbl0 @ new) = new"
    by (simp only: filter_append a c append_Nil)
  show "filter (\<lambda>r. key r \<noteq> m) (filter (\<lambda>r. key r \<noteq> m) tbl0 @ new) =
         filter (\<lambda>r. key r \<noteq> m) tbl0"
    by (simp add: b)
qed

lemma pairs_of_rows:
  assumes "map (\<lambda>r. (pr_product r, pr_embedding r)) new = zip ps es" "length es = length ps"
  shows "map pr_product new = ps" "map pr_embedding new = es"
proof -
  have "map fst (map (\<lambda>r. (pr_product r, pr_embedding r)) new) = map fst (zip ps es)"
    using assms(1) by simp
  then show "map pr_product new = ps" using assms(2) by (simp add: comp_def)
  have "map snd (map (\<lambda>r. (pr_product r, pr_embedding r)) new) = map snd (zip ps es)"
    using assms(1) by simp
  then show "map pr_embedding new = es" using assms(2) by (simp add: comp_def)
qed

lemma insert_products_import:
  assumes len: "length es = length ps"
    and ins: "insert_products new_id fails sid m (zip ps es)
                (filter (\<lambda>r. pr_merchant_id r \<noteq> m) tbl0, 0) = Inr (tbl, n)"
  shows "n = length ps"
    and "filter (\<lambda>r. pr_merchant_id r \<noteq> m) tbl = filter (\<lambda>r. pr_merchant_id r \<noteq> m) tbl0"
    and "map pr_product (filter (\<lambda>r. pr_merchant_id r = m) tbl) = ps"
    and "map pr_embedding (filter (\<lambda>r. pr_merchant_id r = m) tbl) = es"
    and "\<forall>r \<in> set (filter (\<lambda>r. pr_merchant_id r = m) tbl). pr_store_id r = sid"
proof -
  obtain new where new: "tbl = filter (\<lambda>r. pr_merchant_id r \<noteq> m) tbl0 @ new"
    "map (\<lambda>r. (pr_product r, pr_embedding r)) new = zip ps es"
    "\<forall>r \<in> set new. pr_merchant_id r = m \<and> pr_store_id r = sid"
    "n = 0 + length (zip ps es)"
    using insert_products_appends[OF ins] by blast
  have k: "\<forall>r \<in> set new. pr_merchant_id r = m" using new(3) by blast
  have f1: "filter (\<lambda>r. pr_merchant_id r = m) tbl = new"
    unfolding new(1) using k by (rule filter_merchant_append(1))
  show "n = length ps" using new(4) len by simp
  show "filter (\<lambda>r. pr_merchant_id r \<noteq> m) tbl = filter (\<lambda>r. pr_merchant_id r \<noteq> m) tbl0"
    unfolding new(1) using k by (rule filter_merchant_append(2))
  show "map pr_product (filter (\<lambda>r. pr_merchant_id r = m) tbl) = ps"
    unfolding f1 using new(2) len by (rule pairs_of_rows(1))
  show "map pr_embedding (filter (\<lambda>r. pr_merchant_id r = m) tbl) = es"
    unfolding f1 using new(2) len by (rule pairs_of_rows(2))
  show "\<forall>r \<in> set (filter (\<lambda>r. pr_merchant_id r = m) tbl). pr_store_id r = sid"
    unfolding f1 using new(3) by blast
qed

lemma select_product_id_merchant:
  assumes "\<forall>r \<in> set tbl. pr_merchant_id r = m \<longrightarrow> pr_id r \<noteq> 0"
    and "r0 \<in> set tbl" "squarespace_product_id (pr_product r0) = pid" "pr_merchant_id r0 = m"
  shows "\<exists>i. select_product_id pid m tbl = Some i \<and> i \<noteq> 0"
proof -
  let ?f = "filter (\<lambda>r. squarespace_product_id (pr_product r) = pid \<and> pr_merchant_id r = m) tbl"
  have "r0 \<in> set ?f" using assms by simp
  then obtain r rs where f: "?f = r # rs" by (cases ?f) auto
  then have "r \<in> set ?f" by simp
  then have "r \<in> set tbl" "pr_merchant_id r = m" by simp_all
  then have "pr_id r \<noteq> 0" using assms(1) by blast
  then show ?thesis using f by (simp add: select_product_id_def)
qed

lemma insert_squarespace_appends:
  assumes "\<forall>r \<in> set tbl. pr_merchant_id r = m \<longrightarrow> pr_id r \<noteq> 0"
    and "insert_squarespace (fresh_id env t) fails sid m pairs (tbl, vs, n) = Inr (tbl', vs', n')"
  shows "\<exists>new newvs. tbl' = tbl @ new \<and> vs' = vs @ newvs \<and>
           map (\<lambda>r. (pr_product r, pr_embedding r)) new = pairs \<and>
           (\<forall>r \<in> set new. pr_merchant_id r = m \<and> pr_store_id r = sid) \<and>
           map vr_variant_id newvs = map (\<lambda>pe. ''var-'' @ squarespace_product_id (fst pe)) pairs \<and>
           n' = n + length pairs"
  using assms
proof (induction pairs arbitrary: tbl vs n)
  case Nil
  then show ?case by simp
next
  case (Cons pe pairs)
  obtain p e where pe: "pe = (p, e)" by (cases pe)
  from Cons.prems(2) pe have nf: "\<not> fails p" by (auto split: if_splits)
  let ?row = "\<lparr> pr_id = fresh_id env t (map pr_id tbl), pr_product = p, pr_store_id = sid,
                pr_merchant_id = m, pr_embedding = e \<rparr>"
  let ?tbl = "tbl @ [?row]"
  have nz: "\<forall>r \<in> set ?tbl. pr_merchant_id r = m \<longrightarrow> pr_id r \<noteq> 0"
    using Cons.prems(1) by (auto simp: fresh_id_nonzero)
  obtain i where i: "select_product_id (squarespace_product_id p) m ?tbl = Some i" "i \<noteq> 0"
    using select_product_id_merchant[OF nz, of ?row "squarespace_product_id p"] by auto
  let ?v = "\<lparr> vr_product_id = i, vr_variant_id = ''var-'' @ squarespace_product_id p,
              vr_sku = sq_sku p, vr_price = sq_price p, vr_stock = sq_stock p,
              vr_option1_name = ''Default'', vr_option1_value = ''Default'' \<rparr>"
  from Cons.prems(2) pe nf i
  have "insert_squarespace (fresh_id env t) fails sid m pairs (?tbl, vs @ [?v], n + 1) =
          Inr (tbl', vs', n')"
    by (simp add: Let_def)
  from Cons.IH[OF nz this] obtain new newvs where new: "tbl' = ?tbl @ new" "vs' = (vs @ [?v]) @ newvs"
    "map (\<lambda>r. (pr_product r, pr_embedding r)) new = pairs"
    "\<forall>r \<in> set new. pr_merchant_id r = m \<and> pr_store_id r = sid"
    "map vr_variant_id newvs = map (\<lambda>pe. ''var-'' @ squarespace_product_id (fst pe)) pairs"
    "n' = n + 1 + length pairs" by auto
  show ?case
    by (rule exI[of _ "?row # new"], rule exI[of _ "?v # newvs"]) (use new pe in simp)
qed

lemma insert_squarespace_ok:
  "\<forall>pe \<in> set pairs. \<not> fails (fst pe) \<Longrightarrow>
   \<exists>st'. insert_squarespace new_id fails sid m pairs st = Inr st'"
proof (induction pairs arbitrary: st)
  case Nil
  obtain tbl vs n where "st = (tbl, vs, n)" by (rule prod_cases3)
  then show ?case by simp
next
  case (Cons pe pairs)
  obtain p e where pe: "pe = (p, e)" by (cases pe)
  obtain tbl vs n where st: "st = (tbl, vs, n)" by (rule prod_cases3)
  from Cons.prems pe have nf: "\<not> fails p" and rest: "\<forall>pe \<in> set pairs. \<not> fails (fst pe)"
    by simp_all
  show ?case unfolding pe st using nf Cons.IH[OF rest] by (simp add: Let_def)
qed

lemma insert_squarespace_raises:
  assumes "(p, e) \<in> set pairs" "fails p"
  shows "insert_squarespace new_id fails sid m pairs st = Inl StorageError"
  using assms(1)
proof (induction pairs arbitrary: st)
  case Nil
  then show ?case by simp
next
  case (Cons pe pairs)
  obtain tbl vs n where st: "st = (tbl, vs, n)" by (rule prod_cases3)
  obtain p' e' where pe: "pe = (p', e')" by (cases pe)
  show ?case
  proof (cases "fails p'")
    case True
    then show ?thesis unfolding st pe by simp
  next
    case False
    with Cons.prems pe assms(2) have "(p, e) \<in> set pairs" by auto
    from Cons.IH[OF this] show ?thesis unfolding st pe using False by (simp add: Let_def)
  qed
qed

lemma in_zip_fst:
  assumes "p \<in> set ps" "length es = length ps"
  shows "\<exists>e. (p, e) \<in> set (zip ps es)"
proof -
  from assms(1) obtain i where i: "i < length ps" "ps ! i = p" by (auto simp: in_set_conv_nth)
  then have "(p, es ! i) \<in> set (zip ps es)" using assms(2) by (auto simp: in_set_zip)
  then show ?thesis by blast
qed

subsection \<open>The platform imports\<close>

lemma import_shopify_unfold:
  "import_shopify env db m sid rows =
     (if shopify_products (strip_html env) rows = []
      then Inr (db\<lparr> shopify_product_rows := other_rows m (shopify_product_rows db) \<rparr>, 0)
      else (case insert_products (fresh_id env ''shopify_sync.products'')
                   (shopify_insert_fails env) sid m
                   (zip (shopify_products (strip_html env) rows) (shopify_embeddings env rows))
                   (other_rows m (shopify_product_rows db), 0) of
              Inl e \<Rightarrow> Inl e
            | Inr (tbl, inserted) \<Rightarrow>
                Inr (db\<lparr> shopify_product_rows := tbl \<rparr>, inserted)))"
  by (simp add: import_shopify_def shopify_embeddings_def other_rows_def Let_def
      split: sum.splits prod.splits)

lemma import_woocommerce_unfold:
  "import_woocommerce env db m sid rows =
     (if woocommerce_products (strip_html env) rows = []
      then Inr (db\<lparr> woocommerce_product_rows := other_rows m (woocommerce_product_rows db) \<rparr>, 0)
      else (case insert_products (fresh_id env ''woocommerce_sync.products'')
                   (woocommerce_insert_fails env) sid m
                   (zip (woocommerce_products (strip_html env) rows) (woocommerce_embeddings env rows))
                   (other_rows m (woocommerce_product_rows db), 0) of
              Inl e \<Rightarrow> Inl e
            | Inr (tbl, inserted) \<Rightarrow>
                Inr (db\<lparr> woocommerce_product_rows := tbl \<rparr>, inserted)))"
  by (simp add: import_woocommerce_def woocommerce_embeddings_def other_rows_def Let_def
      split: sum.splits prod.splits)

lemma import_squarespace_unfold:
  "import_squarespace env db m sid rows =
     (if squarespace_items env rows = []
      then Inr (db\<lparr> squarespace_product_rows := other_rows m (squarespace_product_rows db),
                    squarespace_variant_rows := cascade_kept m db \<rparr>, 0)
      else (case insert_squarespace (fresh_id env ''squarespace_sync.squarespace_products'')
                   (squarespace_insert_fails env) sid m
                   (zip (squarespace_items env rows) (squarespace_embeddings env rows))
                   (other_rows m (squarespace_product_rows db), cascade_kept m db, 0) of
              Inl e \<Rightarrow> Inl e
            | Inr (tbl, variants, inserted) \<Rightarrow>
                Inr (db\<lparr> squarespace_product_rows := tbl,
                         squarespace_variant_rows := variants \<rparr>, inserted)))"
  by (simp add: import_squarespace_def squarespace_embeddings_def squarespace_items_def
      other_rows_def merchant_rows_def cascade_kept_def Let_def
      split: sum.splits prod.splits)

lemma shopify_embeddings_length:
  "length_preserving (embed env) \<Longrightarrow>
   length (shopify_embeddings env rows) = length (shopify_products (strip_html env) rows)"
  unfolding shopify_embeddings_def using generate_all_length by fastforce

lemma woocommerce_embeddings_length:
  "length_preserving (embed env) \<Longrightarrow>
   length (woocommerce_embeddings env rows) = length (woocommerce_products (strip_html env) rows)"
  unfolding woocommerce_embeddings_def using generate_all_length by fastforce

lemma squarespace_embeddings_length:
  "length_preserving (embed env) \<Longrightarrow>
   length (squarespace_embeddings env rows) = length (squarespace_items env rows)"
  unfolding squarespace_embeddings_def using generate_all_length by fastforce

lemma import_shopify_fails:
  assumes "length_preserving (embed env)"
    and "p \<in> set (shopify_products (strip_html env) rows)" "shopify_insert_fails env p"
  shows "import_shopify env db m sid rows = Inl StorageError"
proof -
  obtain e where "(p, e) \<in> set (zip (shopify_products (strip_html env) rows)
      (shopify_embeddings env rows))"
    using in_zip_fst[OF assms(2) shopify_embeddings_length[OF assms(1)]] by blast
  from insert_products_fails[where fails = "shopify_insert_fails env" and p = p, OF this assms(3)]
    assms(2) show ?thesis
    unfolding import_shopify_unfold by auto
qed

lemma import_woocommerce_fails:
  assumes "length_preserving (embed env)"
    and "p \<in> set (woocommerce_products (strip_html env) rows)" "woocommerce_insert_fails env p"
  shows "import_woocommerce env db m sid rows = Inl StorageError"
proof -
  obtain e where "(p, e) \<in> set (zip (woocommerce_products (strip_html env) rows)
      (woocommerce_embeddings env rows))"
    using in_zip_fst[OF assms(2) woocommerce_embeddings_length[OF assms(1)]] by blast
  from insert_products_fails[where fails = "woocommerce_insert_fails env" and p = p,
      OF this assms(3)] assms(2) show ?thesis
    unfolding import_woocommerce_unfold by auto
qed

lemma import_squarespace_fails:
  assumes "length_preserving (embed env)"
    and "p \<in> set (squarespace_items env rows)" "squarespace_insert_fails env p"
  shows "import_squarespace env db m sid rows = Inl StorageError"
proof -
  obtain e where "(p, e) \<in> set (zip (squarespace_items env rows)
      (squarespace_embeddings env rows))"
    using in_zip_fst[OF assms(2) squarespace_embeddings_length[OF assms(1)]] by blast
  from insert_squarespace_raises[where fails = "squarespace_insert_fails env" and p = p,
      OF this assms(3)] assms(2) show ?thesis
    unfolding import_squarespace_unfold by auto
qed

lemma import_shopify_result:
  assumes lp: "length_preserving (embed env)"
    and ok: "import_shopify env db m sid rows = Inr (db', n)"
  shows "n = length (shopify_products (strip_html env) rows)"
    and "db' = db\<lparr> shopify_product_rows := shopify_product_rows db' \<rparr>"
    and "other_rows m (shopify_product_rows db') = other_rows m (shopify_product_rows db)"
    and "map pr_product (merchant_rows m (shopify_product_rows db')) =
           shopify_products (strip_html env) rows"
    and "map pr_embedding (merchant_rows m (shopify_product_rows db')) =
           shopify_embeddings env rows"
    and "\<forall>r \<in> set (merchant_rows m (shopify_product_rows db')). pr_store_id r = sid"
    and "\<forall>p \<in> set (shopify_products (strip_html env) rows). \<not> shopify_insert_fails env p"
proof -
  let ?ps = "shopify_products (strip_html env) rows"
  let ?es = "shopify_embeddings env rows"
  have len: "length ?es = length ?ps" using lp by (rule shopify_embeddings_length)
  show "\<forall>p \<in> set ?ps. \<not> shopify_insert_fails env p"
    using import_shopify_fails[OF lp, of _ rows db m sid] ok by auto
  have "n = length ?ps \<and> db' = db\<lparr> shopify_product_rows := shopify_product_rows db' \<rparr> \<and>
        other_rows m (shopify_product_rows db') = other_rows m (shopify_product_rows db) \<and>
        map pr_product (merchant_rows m (shopify_product_rows db')) = ?ps \<and>
        map pr_embedding (merchant_rows m (shopify_product_rows db')) = ?es \<and>
        (\<forall>r \<in> set (merchant_rows m (shopify_product_rows db')). pr_store_id r = sid)"
  proof (cases "?ps = []")
    case True
    with ok have "db' = db\<lparr> shopify_product_rows := other_rows m (shopify_product_rows db) \<rparr>"
      and "n = 0" unfolding import_shopify_unfold by simp_all
    moreover have "?es = []" using len True by simp
    ultimately show ?thesis using True
      by (simp add: other_rows_def merchant_rows_def filter_empty_conv)
  next
    case False
    with ok obtain tbl where
      ins: "insert_products (fresh_id env ''shopify_sync.products'') (shopify_insert_fails env)
              sid m (zip ?ps ?es) (filter (\<lambda>r. pr_merchant_id r \<noteq> m) (shopify_product_rows db), 0) =
              Inr (tbl, n)"
      and db': "db' = db\<lparr> shopify_product_rows := tbl \<rparr>"
      unfolding import_shopify_unfold other_rows_def by (auto split: sum.splits)
    note r = insert_products_import[OF len ins]
    show ?thesis unfolding other_rows_def merchant_rows_def using r by (simp add: db')
  qed
  then show "n = length ?ps"
    and "db' = db\<lparr> shopify_product_rows := shopify_product_rows db' \<rparr>"
    and "other_rows m (shopify_product_rows db') = other_rows m (shopify_product_rows db)"
    and "map pr_product (merchant_rows m (shopify_product_rows db')) = ?ps"
    and "map pr_embedding (merchant_rows m (shopify_product_rows db')) = ?es"
    and "\<forall>r \<in> set (merchant_rows m (shopify_product_rows db')). pr_store_id r = sid"
    by blast+
qed

lemma import_woocommerce_result:
  assumes lp: "length_preserving (embed env)"
    and ok: "import_woocommerce env db m sid rows = Inr (db', n)"
  shows "n = length (woocommerce_products (strip_html env) rows)"
    and "db' = db\<lparr> woocommerce_product_rows := woocommerce_product_rows db' \<rparr>"
    and "other_rows m (woocommerce_product_rows db') = other_rows m (woocommerce_product_rows db)"
    and "map pr_product (merchant_rows m (woocommerce_product_rows db')) =
           woocommerce_products (strip_html env) rows"
    and "map pr_embedding (merchant_rows m (woocommerce_product_rows db')) =
           woocommerce_embeddings env rows"
    and "\<forall>r \<in> set (merchant_rows m (woocommerce_product_rows db')). pr_store_id r = sid"
    and "\<forall>p \<in> set (woocommerce_products (strip_html env) rows). \<not> woocommerce_insert_fails env p"
proof -
  let ?ps = "woocommerce_products (strip_html env) rows"
  let ?es = "woocommerce_embeddings env rows"
  have len: "length ?es = length ?ps" using lp by (rule woocommerce_embeddings_length)
  show "\<forall>p \<in> set ?ps. \<not> woocommerce_insert_fails env p"
    using import_woocommerce_fails[OF lp, of _ rows db m sid] ok by auto
  have "n = length ?ps \<and> db' = db\<lparr> woocommerce_product_rows := woocommerce_product_rows db' \<rparr> \<and>
        other_rows m (woocommerce_product_rows db') = other_rows m (woocommerce_product_rows db) \<and>
        map pr_product (merchant_rows m (woocommerce_product_rows db')) = ?ps \<and>
        map pr_embedding (merchant_rows m (woocommerce_product_rows db')) = ?es \<and>
        (\<forall>r \<in> set (merchant_rows m (woocommerce_product_rows db')). pr_store_id r = sid)"
  proof (cases "?ps = []")
    case True
    with ok have "db' = db\<lparr> woocommerce_product_rows := other_rows m (woocommerce_product_rows db) \<rparr>"
      and "n = 0" unfolding import_woocommerce_unfold by simp_all
    moreover have "?es = []" using len True by simp
    ultimately show ?thesis using True
      by (simp add: other_rows_def merchant_rows_def filter_empty_conv)
  next
    case False
    with ok obtain tbl where
      ins: "insert_products (fresh_id env ''woocommerce_sync.products'')
              (woocommerce_insert_fails env) sid m (zip ?ps ?es)
              (filter (\<lambda>r. pr_merchant_id r \<noteq> m) (woocommerce_product_rows db), 0) = Inr (tbl, n)"
      and db': "db' = db\<lparr> woocommerce_product_rows := tbl \<rparr>"
      unfolding import_woocommerce_unfold other_rows_def by (auto split: sum.splits)
    note r = insert_products_import[OF len ins]
    show ?thesis unfolding other_rows_def merchant_rows_def using r by (simp add: db')
  qed
  then show "n = length ?ps"
    and "db' = db\<lparr> woocommerce_product_rows := woocommerce_product_rows db' \<rparr>"
    and "other_rows m (woocommerce_product_rows db') = other_rows m (woocommerce_product_rows db)"
    and "map pr_product (merchant_rows m (woocommerce_product_rows db')) = ?ps"
    and "map pr_embedding (merchant_rows m (woocommerce_product_rows db')) = ?es"
    and "\<forall>r \<in> set (merchant_rows m (woocommerce_product_rows db')). pr_store_id r = sid"
    by blast+
qed

lemma import_squarespace_result:
  assumes lp: "length_preserving (embed env)"
    and ok: "import_squarespace env db m sid rows = Inr (db', n)"
  shows "n = length (squarespace_items env rows)"
    and "db' = db\<lparr> squarespace_product_rows := squarespace_product_rows db',
                    squarespace_variant_rows := squarespace_variant_rows db' \<rparr>"
    and "other_rows m (squarespace_product_rows db') = other_rows m (squarespace_product_rows db)"
    and "map pr_product (merchant_rows m (squarespace_product_rows db')) =
           squarespace_items env rows"
    and "map pr_embedding (merchant_rows m (squarespace_product_rows db')) =
           squarespace_embeddings env rows"
    and "\<forall>r \<in> set (merchant_rows m (squarespace_product_rows db')). pr_store_id r = sid"
    and "\<forall>p \<in> set (squarespace_items env rows). \<not> squarespace_insert_fails env p"
    and "\<exists>newvs. squarespace_variant_rows db' = cascade_kept m db @ newvs \<and>
           map vr_variant_id newvs =
             map (\<lambda>p. ''var-'' @ squarespace_product_id p) (squarespace_items env rows)"
proof -
  let ?ps = "squarespace_items env rows"
  let ?es = "squarespace_embeddings env rows"
  let ?old = "filter (\<lambda>r. pr_merchant_id r \<noteq> m) (squarespace_product_rows db)"
  have len: "length ?es = length ?ps" using lp by (rule squarespace_embeddings_length)
  show "\<forall>p \<in> set ?ps. \<not> squarespace_insert_fails env p"
    using import_squarespace_fails[OF lp, of _ rows db m sid] ok by auto
  have "n = length ?ps \<and>
        db' = db\<lparr> squarespace_product_rows := squarespace_product_rows db',
                  squarespace_variant_rows := squarespace_variant_rows db' \<rparr> \<and>
        other_rows m (squarespace_product_rows db') = other_rows m (squarespace_product_rows db) \<and>
        map pr_product (merchant_rows m (squarespace_product_rows db')) = ?ps \<and>
        map pr_embedding (merchant_rows m (squarespace_product_rows db')) = ?es \<and>
        (\<forall>r \<in> set (merchant_rows m (squarespace_product_rows db')). pr_store_id r = sid) \<and>
        (\<exists>newvs. squarespace_variant_rows db' = cascade_kept m db @ newvs \<and>
           map vr_variant_id newvs = map (\<lambda>p. ''var-'' @ squarespace_product_id p) ?ps)"
  proof (cases "?ps = []")
    case True
    with ok have "db' = db\<lparr> squarespace_product_rows := other_rows m (squarespace_product_rows db),
                    squarespace_variant_rows := cascade_kept m db \<rparr>"
      and "n = 0" unfolding import_squarespace_unfold by simp_all
    moreover have "?es = []" using len True by simp
    ultimately show ?thesis using True
      by (simp add: other_rows_def merchant_rows_def filter_empty_conv)
  next
    case False
    with ok obtain tbl vs where
      ins: "insert_squarespace (fresh_id env ''squarespace_sync.squarespace_products'')
              (squarespace_insert_fails env) sid m (zip ?ps ?es) (?old, cascade_kept m db, 0) =
              Inr (tbl, vs, n)"
      and db': "db' = db\<lparr> squarespace_product_rows := tbl, squarespace_variant_rows := vs \<rparr>"
      unfolding import_squarespace_unfold other_rows_def by (auto split: sum.splits)
    have nz: "\<forall>r \<in> set ?old. pr_merchant_id r = m \<longrightarrow> pr_id r \<noteq> 0" by simp
    obtain new newvs where new: "tbl = ?old @ new" "vs = cascade_kept m db @ newvs"
      "map (\<lambda>r. (pr_product r, pr_embedding r)) new = zip ?ps ?es"
      "\<forall>r \<in> set new. pr_merchant_id r = m \<and> pr_store_id r = sid"
      "map vr_variant_id newvs =
         map (\<lambda>pe. ''var-'' @ squarespace_product_id (fst pe)) (zip ?ps ?es)"
      "n = 0 + length (zip ?ps ?es)"
      using insert_squarespace_appends[OF nz ins] by blast
    have k: "\<forall>r \<in> set new. pr_merchant_id r = m" using new(4) by blast
    have f1: "filter (\<lambda>r. pr_merchant_id r = m) tbl = new"
      unfolding new(1) using k by (rule filter_merchant_append(1))
    have f2: "filter (\<lambda>r. pr_merchant_id r \<noteq> m) tbl = ?old"
      unfolding new(1) using k by (rule filter_merchant_append(2))
    have v: "map (\<lambda>pe. ''var-'' @ squarespace_product_id (fst pe)) (zip ?ps ?es) =
             map (\<lambda>p. ''var-'' @ squarespace_product_id p) (map fst (zip ?ps ?es))"
      by (simp add: comp_def)
    have v2: "map vr_variant_id newvs = map (\<lambda>p. ''var-'' @ squarespace_product_id p) ?ps"
      unfolding new(5) v using len by simp
    show ?thesis
      unfolding other_rows_def merchant_rows_def db'
      using new(2,4,6) len pairs_of_rows[OF new(3) len] v2 by (simp add: f1 f2)
  qed
  then show "n = length ?ps"
    and "db' = db\<lparr> squarespace_product_rows := squarespace_product_rows db',
                    squarespace_variant_rows := squarespace_variant_rows db' \<rparr>"
    and "other_rows m (squarespace_product_rows db') = other_rows m (squarespace_product_rows db)"
    and "map pr_product (merchant_rows m (squarespace_product_rows db')) = ?ps"
    and "map pr_embedding (merchant_rows m (squarespace_product_rows db')) = ?es"
    and "\<forall>r \<in> set (merchant_rows m (squarespace_product_rows db')). pr_store_id r = sid"
    and "\<exists>newvs. squarespace_variant_rows db' = cascade_kept m db @ newvs \<and>
           map vr_variant_id newvs = map (\<lambda>p. ''var-'' @ squarespace_product_id p) ?ps"
    by blast+
qed

lemma import_shopify_ok:
  "\<forall>p. \<not> shopify_insert_fails env p \<Longrightarrow> \<exists>db' n. import_shopify env db m sid rows = Inr (db', n)"
  unfolding import_shopify_unfold
  using insert_products_ok[where fails = "shopify_insert_fails env"
      and new_id = "fresh_id env ''shopify_sync.products''" and sid = sid and m = m
      and pairs = "zip (shopify_products (strip_html env) rows) (shopify_embeddings env rows)"
      and st = "(other_rows m (shopify_product_rows db), 0)"]
  by auto

lemma import_woocommerce_ok:
  "\<forall>p. \<not> woocommerce_insert_fails env p \<Longrightarrow>
   \<exists>db' n. import_woocommerce env db m sid rows = Inr (db', n)"
  unfolding import_woocommerce_unfold
  using insert_products_ok[where fails = "woocommerce_insert_fails env"
      and new_id = "fresh_id env ''woocommerce_sync.products''" and sid = sid and m = m
      and pairs = "zip (woocommerce_products (strip_html env) rows) (woocommerce_embeddings env rows)"
      and st = "(other_rows m (woocommerce_product_rows db), 0)"]
  by auto

lemma import_squarespace_ok:
  "\<forall>p. \<not> squarespace_insert_fails env p \<Longrightarrow>
   \<exists>db' n. import_squarespace env db m sid rows = Inr (db', n)"
  unfolding import_squarespace_unfold
  using insert_squarespace_ok[where fails = "squarespace_insert_fails env"
      and new_id = "fresh_id env ''squarespace_sync.squarespace_products''" and sid = sid and m = m
      and pairs = "zip (squarespace_items env rows) (squarespace_embeddings env rows)"
      and st = "(other_rows m (squarespace_product_rows db), cascade_kept m db, 0)"]
  by auto

subsection \<open>\<open>import_products\<close>\<close>



lemma select_after_insert_by_merchant:
  "\<exists>i. select_store_id (\<lambda>r. st_merchant_id r = m) (insert_by_merchant new_id m url name stores) = Inr i"
proof -
  let ?s = "insert_by_merchant new_id m url name stores"
  have "\<exists>r \<in> set ?s. st_merchant_id r = m"
    by (auto simp: insert_by_merchant_def list_ex_iff)
  then have "filter (\<lambda>r. st_merchant_id r = m) ?s \<noteq> []"
    by (simp add: filter_empty_conv)
  then show ?thesis by (cases "filter (\<lambda>r. st_merchant_id r = m) ?s") (simp_all add: select_store_id_def)
qed

lemma ensure_store_entry_woocommerce:
  "\<exists>db1 sid. ensure_store_entry env db m ''woocommerce'' su sn = Inr (db1, sid)"
  using select_after_insert_by_merchant
    [of m "fresh_id env ''woocommerce_sync.woocommerce_stores''"
       "option_or su (''https://'' @ m @ ''.com'')" "option_or sn m" "woocommerce_stores db"]
  by (auto simp: ensure_store_entry_def Let_def)













subsection \<open>\<open>_store_document_embeddings\<close>\<close>

lemma stored_chunks_append:
  "stored_chunks m (a @ b) = stored_chunks m a @ stored_chunks m b"
  by (simp add: stored_chunks_def)



lemma store_batches_rows:
  "store_batches svc fails m bs (tbl, n) = Inr (tbl', n') \<Longrightarrow>
   tbl' = tbl @ stored_chunks m
             (concat (map (\<lambda>b. zip b (generate_embeddings_batch svc (map doc_content b))) bs))"
proof (induction bs arbitrary: tbl n)
  case Nil
  then show ?case by (simp add: stored_chunks_def)
next
  case (Cons b bs)
  let ?pairs = "zip b (generate_embeddings_batch svc (map doc_content b))"
  from Cons.prems obtain tbl1 n1 where
    b: "store_batch fails m ?pairs (tbl, n) = Inr (tbl1, n1)"
    and r: "store_batches svc fails m bs (tbl1, n1) = Inr (tbl', n')"
    by (auto simp: Let_def split: sum.splits)
  from store_batch_rows[OF b] have "tbl1 = tbl @ stored_chunks m ?pairs" by simp
  with Cons.IH[OF r] show ?case by (simp add: stored_chunks_append)
qed

lemma store_document_embeddings_cases:
  assumes "store_document_embeddings env db m docs = (db', r)"
  shows "(\<exists>stored. r = Inr stored) \<and>
         (db' = db \<or>
          db' = db\<lparr> document_chunk_rows :=
                      filter (\<lambda>r. cr_merchant_id r \<noteq> m) (document_chunk_rows db) @
                      stored_chunks m (chunk_pairs (embed env)
                        (filter (\<lambda>d. strip (doc_content d) \<noteq> []) docs)) \<rparr>)"
proof -
  let ?cd = "filter (\<lambda>d. strip (doc_content d) \<noteq> []) docs"
  let ?old = "filter (\<lambda>r. cr_merchant_id r \<noteq> m) (document_chunk_rows db)"
  show ?thesis
  proof (cases "?cd = []")
    case True
    then have "chunk_pairs (embed env) ?cd = []" by (simp add: chunk_pairs_def batches_Nil)
    then show ?thesis using assms True
      by (auto simp: store_document_embeddings_def Let_def get_connection_def commit_def
          return_connection_def stored_chunks_def)
  next
    case False
    show ?thesis
    proof (cases "store_batches (embed env) (chunk_insert_fails env) m (batches ?cd) (?old, 0)")
      case (Inl k)
      then show ?thesis using assms False
        by (auto simp: store_document_embeddings_def Let_def get_connection_def rollback_def
            return_connection_def)
    next
      case (Inr st)
      obtain tbl k where st: "st = (tbl, k)" by (cases st)
      from store_batches_rows[OF Inr[unfolded st]]
      have "tbl = ?old @ stored_chunks m (chunk_pairs (embed env) ?cd)"
        by (simp add: chunk_pairs_def)
      then show ?thesis using assms False Inr st
        by (auto simp: store_document_embeddings_def Let_def get_connection_def commit_def
            return_connection_def)
    qed
  qed
qed


lemma stored_chunks_have_embedding:
  "\<forall>row \<in> set (stored_chunks m pairs). cr_embedding row \<noteq> None"
  by (auto simp: stored_chunks_def chunk_row_of_def split: option.splits)

lemma stored_chunks_length:
  "length (stored_chunks m pairs) = length (filter (\<lambda>ce. snd ce \<noteq> None) pairs)"
  by (induction pairs) (auto simp: stored_chunks_def split: option.splits)

subsection \<open>Concrete environments and databases\<close>

lemma demo_env_fields:
  "embed demo_env = fails_on_bad" "strip_html demo_env = (\<lambda>s. s)"
  "shopify_insert_fails demo_env = (\<lambda>p. False)" "woocommerce_insert_fails demo_env = (\<lambda>p. False)"
  "squarespace_insert_fails demo_env = (\<lambda>p. False)"
  by (simp_all add: demo_env_def)

lemma down_env_fields:
  "embed down_env = (\<lambda>ts. None)" "strip_html down_env = (\<lambda>s. s)"
  "shopify_insert_fails down_env = (\<lambda>p. False)" "woocommerce_insert_fails down_env = (\<lambda>p. False)"
  "squarespace_insert_fails down_env = (\<lambda>p. False)"
  by (simp_all add: down_env_def demo_env_def)


lemma generate_all_down:
  "generate_all_embeddings (\<lambda>ts. None) texts = replicate (length texts) None"
proof -
  have lp: "length_preserving (\<lambda>ts. None)" by (simp add: length_preserving_def)
  have "\<forall>y \<in> set (generate_all_embeddings (\<lambda>ts. None) texts). y = None"
    by (auto simp: generate_all_embeddings_def generate_embeddings_batch_def)
  then have "replicate (length (generate_all_embeddings (\<lambda>ts. None) texts)) None =
             generate_all_embeddings (\<lambda>ts. None) texts"
    by (rule replicate_length_same)
  then show ?thesis using generate_all_length[OF lp, of texts] by simp
qed

lemma down_embeddings:
  "shopify_embeddings down_env bad_rows = [None]"
  "woocommerce_embeddings down_env bad_rows = [None]"
  "squarespace_embeddings down_env bad_rows = [None]"
  unfolding shopify_embeddings_def woocommerce_embeddings_def squarespace_embeddings_def
    squarespace_items_def down_env_fields generate_all_down
  by (simp_all add: length_one_of_map[OF bad_rows_ids(1)] length_one_of_map[OF bad_rows_ids(2)]
      length_one_of_map[OF bad_rows_ids(3)])

lemma var_ids_of_items:
  "map (\<lambda>p. ''var-'' @ squarespace_product_id p) (squarespace_items env rows) =
   map (\<lambda>i. ''var-'' @ str_nat (nat (BASE_PRODUCT_ID + int i)))
     (rows_with [''title'', ''name'', ''product_name''] rows)"
proof -
  have "map (\<lambda>p. ''var-'' @ squarespace_product_id p) (squarespace_items env rows) =
        map (\<lambda>s. ''var-'' @ s) (map squarespace_product_id (squarespace_items env rows))"
    by (simp add: comp_def)
  then show ?thesis
    unfolding squarespace_items_def squarespace_products_id_list by (simp add: comp_def)
qed

lemma cascade_kept_empty: "cascade_kept m empty_db = []"
  by (simp add: cascade_kept_def empty_db_def)






section \<open>Variants of a product\<close>

text \<open>
  Claim C3, as stated, promises at least one variant for every product, with a default
  variant synthesized when the rows supply none. In the grouped export a handle group
  without any \<open>Variant Price\<close> gives a product with an empty variant list.
\<close>

theorem C3_grouped_product_without_variant_counterexample:
  "has_handle hat_rows \<and>
   map sp_handle (shopify_products (\<lambda>s. s) hat_rows) = [''hat''] \<and>
   map (\<lambda>p. raw_variants (sp_raw_data p)) (shopify_products (\<lambda>s. s) hat_rows) = [[]]"
  by (simp add: hat_rows_def has_handle_def shopify_products_def
      build_shopify_products_from_csv_def grouped_product_def get_col_eval)

text \<open>
  Claim C3, amended: a product of the grouped export has one variant per row of its handle
  with a non-empty \<open>Variant Price\<close> (none when no row has a price: no default variant
  is synthesized); a Shopify product built from one row has exactly one variant, titled
  \<open>Default\<close>; a WooCommerce product has an empty list of variations; for Squarespace the
  insert loop adds one default variant row per product row it inserts.
\<close>

theorem C3_variants_per_product:
  "(\<forall>i < length (build_shopify_products_from_csv sh rows).
      length (raw_variants (sp_raw_data (build_shopify_products_from_csv sh rows ! i))) =
        length (filter (\<lambda>r. get_col r [''Variant Price''] \<noteq> [])
                  (rows_of_handle (sp_handle (build_shopify_products_from_csv sh rows ! i)) rows))) \<and>
   (\<forall>p \<in> set (build_shopify_products_generic sh rows).
      map var_title (raw_variants (sp_raw_data p)) = [''Default'']) \<and>
   (\<forall>p \<in> set (woocommerce_products sh rows). wcr_variations (wc_raw_data p) = []) \<and>
   ((\<forall>r \<in> set tbl. pr_id r \<noteq> 0) \<and>
    insert_squarespace (fresh_id env t) fails store_id merchant_id pairs (tbl, vs, n) = Inr (tbl', vs', n') \<longrightarrow>
      length vs' = length vs + length pairs)"
proof (intro conjI allI impI ballI)
  fix i assume "i < length (build_shopify_products_from_csv sh rows)"
  then show "length (raw_variants (sp_raw_data (build_shopify_products_from_csv sh rows ! i))) =
        length (filter (\<lambda>r. get_col r [''Variant Price''] \<noteq> [])
                  (rows_of_handle (sp_handle (build_shopify_products_from_csv sh rows ! i)) rows))"
    by (rule grouped_product_variants_by_handle)
next
  fix p assume "p \<in> set (build_shopify_products_generic sh rows)"
  then show "map var_title (raw_variants (sp_raw_data p)) = [''Default'']"
    using generic_products_ids[of p sh rows] by auto
next
  fix p assume "p \<in> set (woocommerce_products sh rows)"
  then show "wcr_variations (wc_raw_data p) = []"
    using woocommerce_products_ids[of p sh rows] by auto
next
  assume "(\<forall>r \<in> set tbl. pr_id r \<noteq> 0) \<and>
    insert_squarespace (fresh_id env t) fails store_id merchant_id pairs (tbl, vs, n) = Inr (tbl', vs', n')"
  then show "length vs' = length vs + length pairs"
    using insert_squarespace_variants
      [where tbl = tbl and env = env and t = t and fails = fails and pairs = pairs and vs = vs]
    by blast
qed

theorem C3_variants_per_product_witness:
  "length (build_shopify_products_from_csv (\<lambda>s. s) blue_shirt_rows) = 1 \<and>
   sp_handle (build_shopify_products_from_csv (\<lambda>s. s) blue_shirt_rows ! 0) = ''blue-shirt'' \<and>
   length (raw_variants (sp_raw_data
     (build_shopify_products_from_csv (\<lambda>s. s) blue_shirt_rows ! 0))) = 2 \<and>
   length (fst (snd (projr (insert_squarespace (fresh_id demo_env ''squarespace_sync.squarespace_products'') (\<lambda>p. False) 1 ''m1'' [(mug, None)] ([], [], 0))))) = 1"
proof -
  let ?ps = "build_shopify_products_from_csv (\<lambda>s. s) blue_shirt_rows"
  have len: "length ?ps = 1"
    by (simp add: grouped_products_length blue_shirt_groups)
  have h: "sp_handle (?ps ! 0) = ''blue-shirt''"
    by (simp add: grouped_products_nth blue_shirt_groups grouped_product_handle)
  have rh: "rows_of_handle ''blue-shirt'' blue_shirt_rows = blue_shirt_rows"
    by (simp add: rows_of_handle_def blue_shirt_rows_def get_col_eval)
  note t = C3_variants_per_product
    [where sh = "\<lambda>s. s" and rows = blue_shirt_rows and tbl = "[]" and env = demo_env
       and t = "''squarespace_sync.squarespace_products''" and fails = "\<lambda>p. False"
       and store_id = 1 and merchant_id = "''m1''" and pairs = "[(mug, None)]" and vs = "[]"
       and n = 0]
  have "length (raw_variants (sp_raw_data (?ps ! 0))) = length blue_shirt_rows"
    using t [THEN conjunct1, rule_format, of 0] len
    by (simp only: h rh blue_shirt_prices)
  then have v: "length (raw_variants (sp_raw_data (?ps ! 0))) = 2"
    by (simp add: blue_shirt_rows_def)
  obtain tbl' vs' n' where
    ins: "insert_squarespace (fresh_id demo_env ''squarespace_sync.squarespace_products'') (\<lambda>p. False) 1 ''m1'' [(mug, None)] ([], [], 0) = Inr (tbl', vs', n')"
    by (simp add: Let_def select_product_id_def split: list.splits)
  have "length vs' = length ([] :: int variant_row list) + length [(mug, None :: vector option)]"
    using t [where tbl' = tbl' and vs' = vs' and n' = n', THEN conjunct2, THEN conjunct2,
        THEN conjunct2] ins by simp
  then have "length (fst (snd (projr (insert_squarespace (fresh_id demo_env ''squarespace_sync.squarespace_products'') (\<lambda>p. False) 1 ''m1'' [(mug, None)]
      ([], [], 0))))) = 1"
    unfolding ins by simp
  then show ?thesis using len h v by simp
qed

section \<open>Synthetic identifiers\<close>

text \<open>
  Claim C7, as stated, gives the \<open>i\<close>-th product the ID \<open>BASE_PRODUCT_ID + i\<close> and its
  \<open>j\<close>-th variant the ID \<open>BASE_VARIANT_ID + i * 100 + j\<close>. In the builders with one row per
  product the number added is the index of the row, and a row without title gives no
  product: for a row without title followed by a row with a title, the first product
  (number 0) has the product ID \<open>BASE_PRODUCT_ID + 1\<close>, not \<open>BASE_PRODUCT_ID + 0\<close>, and the
  variant ID \<open>BASE_VARIANT_ID + 100\<close>, not \<open>BASE_VARIANT_ID + 0\<close>. The variant row stored for
  a Squarespace product has no number as its ID: it is the text \<open>var-\<close> followed by the
  product's ID.
\<close>

theorem C7_product_number_is_not_row_number_counterexample:
  "map shopify_product_id (build_shopify_products_generic (\<lambda>s. s) gap_rows) = [9900000000002] \<and>
   BASE_PRODUCT_ID + int 0 = 9900000000001 \<and>
   map (\<lambda>p. map var_id (raw_variants (sp_raw_data p)))
     (build_shopify_products_generic (\<lambda>s. s) gap_rows) = [[9900000100101]] \<and>
   BASE_VARIANT_ID + int 0 * 100 + int 0 = 9900000100001 \<and>
   map vr_variant_id (squarespace_variant_rows
     (fst (projr (import_squarespace demo_env empty_db ''m1'' 1 bad_rows)))) =
     [''var-9900000000001'']"
proof -
  have a: "map shopify_product_id (build_shopify_products_generic (\<lambda>s. s) gap_rows) =
           [9900000000002]"
    unfolding generic_products_id_list rows_with_gap_rows[OF title_keys(1)]
    by (simp add: BASE_PRODUCT_ID_def)
  have b: "map (\<lambda>p. map var_id (raw_variants (sp_raw_data p)))
     (build_shopify_products_generic (\<lambda>s. s) gap_rows) = [[9900000100101]]"
    unfolding generic_products_variant_ids rows_with_gap_rows[OF title_keys(1)]
    by (simp add: BASE_VARIANT_ID_def)
  have lp: "length_preserving (embed demo_env)"
    by (simp add: demo_env_fields length_preserving_fails_on_bad)
  obtain db' n where imp: "import_squarespace demo_env empty_db ''m1'' 1 bad_rows = Inr (db', n)"
    using import_squarespace_ok[of demo_env empty_db "''m1''" 1 bad_rows]
    by (auto simp: demo_env_fields)
  obtain newvs where "squarespace_variant_rows db' = cascade_kept ''m1'' empty_db @ newvs"
    "map vr_variant_id newvs =
       map (\<lambda>p. ''var-'' @ squarespace_product_id p) (squarespace_items demo_env bad_rows)"
    using import_squarespace_result(8)[OF lp imp] by blast
  then have "map vr_variant_id (squarespace_variant_rows db') = [''var-9900000000001'']"
    unfolding var_ids_of_items rows_with_bad_rows[OF title_keys(3)] cascade_kept_empty
    by (simp add: str_nat_base)
  then have c: "map vr_variant_id (squarespace_variant_rows
     (fst (projr (import_squarespace demo_env empty_db ''m1'' 1 bad_rows)))) =
     [''var-9900000000001'']"
    unfolding imp by simp
  show ?thesis using a b c by (simp add: BASE_PRODUCT_ID_def BASE_VARIANT_ID_def)
qed

text \<open>
  Claim C7, amended. Grouped export: the products are the handle groups, in the order of
  the first row of each handle; product \<open>i\<close> has the ID \<open>BASE_PRODUCT_ID + i\<close>; its variants
  are the rows of its handle that have a \<open>Variant Price\<close>, in order, and variant \<open>j\<close> has
  the ID \<open>BASE_VARIANT_ID + i * 100 + j\<close>. One row per product (Shopify generic mode,
  WooCommerce, Squarespace): there is one product for every row with a title, in row order,
  and the product of the row with index \<open>i\<close>, counting the rows without title, has the ID
  \<open>BASE_PRODUCT_ID + i\<close> (for Squarespace the decimal string of that number); in Shopify
  generic mode its one variant has the ID \<open>BASE_VARIANT_ID + i * 100\<close>; a WooCommerce product
  has no variations; the variant rows a Squarespace import adds are one per product, in
  order, with the text \<open>var-\<close> followed by the product's ID as their ID. The IDs are
  given as functions of the rows alone, so the same rows give the same IDs, and no two
  products of one run share a product ID.
\<close>

theorem C7_ids_by_group_and_row_index:
  "map sp_handle (build_shopify_products_from_csv sh rows) = handles_in_order rows \<and>
   (\<forall>i < length (build_shopify_products_from_csv sh rows).
      shopify_product_id (build_shopify_products_from_csv sh rows ! i) = BASE_PRODUCT_ID + int i \<and>
      map var_price (raw_variants (sp_raw_data (build_shopify_products_from_csv sh rows ! i))) =
        filter (\<lambda>x. x \<noteq> []) (map (\<lambda>r. get_col r [''Variant Price''])
          (rows_of_handle (sp_handle (build_shopify_products_from_csv sh rows ! i)) rows)) \<and>
      (\<forall>j < length (raw_variants (sp_raw_data (build_shopify_products_from_csv sh rows ! i))).
         var_id (raw_variants (sp_raw_data (build_shopify_products_from_csv sh rows ! i)) ! j) =
           BASE_VARIANT_ID + int i * 100 + int j)) \<and>
   distinct (map shopify_product_id (build_shopify_products_from_csv sh rows)) \<and>
   map shopify_product_id (build_shopify_products_generic sh rows) =
     map (\<lambda>i. BASE_PRODUCT_ID + int i)
       (rows_with [''title'', ''name'', ''product_name'', ''product_title''] rows) \<and>
   map (\<lambda>p. map var_id (raw_variants (sp_raw_data p))) (build_shopify_products_generic sh rows) =
     map (\<lambda>i. [BASE_VARIANT_ID + int i * 100])
       (rows_with [''title'', ''name'', ''product_name'', ''product_title''] rows) \<and>
   distinct (map shopify_product_id (build_shopify_products_generic sh rows)) \<and>
   map wc_product_id (woocommerce_products sh rows) =
     map (\<lambda>i. BASE_PRODUCT_ID + int i)
       (rows_with [''name'', ''title'', ''product_name'', ''product_title''] rows) \<and>
   (\<forall>p \<in> set (woocommerce_products sh rows). wcr_variations (wc_raw_data p) = []) \<and>
   distinct (map wc_product_id (woocommerce_products sh rows)) \<and>
   map squarespace_product_id (squarespace_products sh tf z rows) =
     map (\<lambda>i. str_nat (nat (BASE_PRODUCT_ID + int i)))
       (rows_with [''title'', ''name'', ''product_name''] rows) \<and>
   distinct (map squarespace_product_id (squarespace_products sh tf z rows)) \<and>
   (length_preserving (embed env) \<and> import_squarespace env db m sid rows = Inr (db', n) \<longrightarrow>
      (\<exists>newvs. squarespace_variant_rows db' = cascade_kept m db @ newvs \<and>
         map vr_variant_id newvs =
           map (\<lambda>i. ''var-'' @ str_nat (nat (BASE_PRODUCT_ID + int i)))
             (rows_with [''title'', ''name'', ''product_name''] rows)))"
proof (intro conjI allI impI ballI)
  show "map sp_handle (build_shopify_products_from_csv sh rows) = handles_in_order rows"
    by (rule grouped_products_handles)
next
  fix i assume i: "i < length (build_shopify_products_from_csv sh rows)"
  then have g: "i < length (group_rows rows [])" by (simp add: grouped_products_length)
  show "shopify_product_id (build_shopify_products_from_csv sh rows ! i) = BASE_PRODUCT_ID + int i"
    by (simp add: grouped_products_nth[OF g] grouped_product_fields)
  show "map var_price (raw_variants (sp_raw_data (build_shopify_products_from_csv sh rows ! i))) =
        filter (\<lambda>x. x \<noteq> []) (map (\<lambda>r. get_col r [''Variant Price''])
          (rows_of_handle (sp_handle (build_shopify_products_from_csv sh rows ! i)) rows))"
    using i by (rule grouped_product_variant_prices)
  fix j assume "j < length (raw_variants (sp_raw_data (build_shopify_products_from_csv sh rows ! i)))"
  then show "var_id (raw_variants (sp_raw_data (build_shopify_products_from_csv sh rows ! i)) ! j) =
           BASE_VARIANT_ID + int i * 100 + int j"
    using build_variants_ids[of j "BASE_PRODUCT_ID + int i" i 0 "snd (group_rows rows [] ! i)"]
    by (simp add: grouped_products_nth[OF g] grouped_product_fields)
next
  show "distinct (map shopify_product_id (build_shopify_products_from_csv sh rows))"
    by (rule grouped_products_distinct)
  show "map shopify_product_id (build_shopify_products_generic sh rows) =
     map (\<lambda>i. BASE_PRODUCT_ID + int i)
       (rows_with [''title'', ''name'', ''product_name'', ''product_title''] rows)"
    by (rule generic_products_id_list)
  show "map (\<lambda>p. map var_id (raw_variants (sp_raw_data p))) (build_shopify_products_generic sh rows) =
     map (\<lambda>i. [BASE_VARIANT_ID + int i * 100])
       (rows_with [''title'', ''name'', ''product_name'', ''product_title''] rows)"
    by (rule generic_products_variant_ids)
  show "distinct (map shopify_product_id (build_shopify_products_generic sh rows))"
    by (rule generic_products_distinct)
  show "map wc_product_id (woocommerce_products sh rows) =
     map (\<lambda>i. BASE_PRODUCT_ID + int i)
       (rows_with [''name'', ''title'', ''product_name'', ''product_title''] rows)"
    by (rule woocommerce_products_id_list)
  show "distinct (map wc_product_id (woocommerce_products sh rows))"
    by (rule woocommerce_products_distinct)
  show "map squarespace_product_id (squarespace_products sh tf z rows) =
     map (\<lambda>i. str_nat (nat (BASE_PRODUCT_ID + int i)))
       (rows_with [''title'', ''name'', ''product_name''] rows)"
    by (rule squarespace_products_id_list)
  show "distinct (map squarespace_product_id (squarespace_products sh tf z rows))"
    by (rule squarespace_products_distinct)
next
  fix p assume "p \<in> set (woocommerce_products sh rows)"
  then show "wcr_variations (wc_raw_data p) = []"
    using woocommerce_products_ids[of p sh rows] by auto
next
  assume a: "length_preserving (embed env) \<and> import_squarespace env db m sid rows = Inr (db', n)"
  then have lp: "length_preserving (embed env)"
    and ok: "import_squarespace env db m sid rows = Inr (db', n)" by simp_all
  have "map (\<lambda>p. ''var-'' @ squarespace_product_id p) (squarespace_items env rows) =
        map (\<lambda>s. ''var-'' @ s) (map squarespace_product_id (squarespace_items env rows))"
    by (simp add: comp_def)
  also have "\<dots> = map (\<lambda>i. ''var-'' @ str_nat (nat (BASE_PRODUCT_ID + int i)))
             (rows_with [''title'', ''name'', ''product_name''] rows)"
    unfolding squarespace_items_def squarespace_products_id_list by (simp add: comp_def)
  finally show "\<exists>newvs. squarespace_variant_rows db' = cascade_kept m db @ newvs \<and>
         map vr_variant_id newvs =
           map (\<lambda>i. ''var-'' @ str_nat (nat (BASE_PRODUCT_ID + int i)))
             (rows_with [''title'', ''name'', ''product_name''] rows)"
    using import_squarespace_result(8)[OF lp ok] by simp
qed

theorem C7_ids_by_group_and_row_index_witness:
  "map sp_handle (build_shopify_products_from_csv (\<lambda>s. s) blue_shirt_rows) = [''blue-shirt''] \<and>
   length (raw_variants (sp_raw_data
     (build_shopify_products_from_csv (\<lambda>s. s) blue_shirt_rows ! 0))) = 2 \<and>
   shopify_product_id (build_shopify_products_from_csv (\<lambda>s. s) blue_shirt_rows ! 0) =
     9900000000001 \<and>
   var_id (raw_variants (sp_raw_data
     (build_shopify_products_from_csv (\<lambda>s. s) blue_shirt_rows ! 0)) ! 1) = 9900000100002 \<and>
   map shopify_product_id (build_shopify_products_generic (\<lambda>s. s) gap_rows) = [9900000000002] \<and>
   map wc_product_id (woocommerce_products (\<lambda>s. s) gap_rows) = [9900000000002] \<and>
   map squarespace_product_id (squarespace_items demo_env gap_rows) = [''9900000000002''] \<and>
   map vr_variant_id (squarespace_variant_rows
     (fst (projr (import_squarespace demo_env empty_db ''m1'' 1 gap_rows)))) =
     [''var-9900000000002'']"
proof -
  let ?ps = "build_shopify_products_from_csv (\<lambda>s. s) blue_shirt_rows"
  have lp: "length_preserving (embed demo_env)"
    by (simp add: demo_env_fields length_preserving_fails_on_bad)
  obtain db' n where imp: "import_squarespace demo_env empty_db ''m1'' 1 gap_rows = Inr (db', n)"
    using import_squarespace_ok[of demo_env empty_db "''m1''" 1 gap_rows]
    by (auto simp: demo_env_fields)
  have len: "length ?ps = 1"
    by (simp add: grouped_products_length blue_shirt_groups)
  have "raw_variants (sp_raw_data (?ps ! 0)) =
        build_variants (BASE_PRODUCT_ID + int 0) 0 0 blue_shirt_rows"
    by (simp add: grouped_products_nth grouped_product_fields blue_shirt_groups)
  then have "length (raw_variants (sp_raw_data (?ps ! 0))) = length blue_shirt_rows"
    by (simp only: build_variants_length blue_shirt_prices)
  then have vlen: "length (raw_variants (sp_raw_data (?ps ! 0))) = 2"
    by (simp add: blue_shirt_rows_def)
  note t = C7_ids_by_group_and_row_index
    [where sh = "\<lambda>s. s" and rows = blue_shirt_rows]
  note g = C7_ids_by_group_and_row_index
    [where sh = "\<lambda>s. s" and rows = gap_rows and env = demo_env and db = empty_db
       and m = "''m1''" and sid = 1 and db' = db' and n = n and tf = "to_float demo_env"
       and z = "float_zero demo_env"]
  have h: "map sp_handle ?ps = [''blue-shirt'']"
    using t [THEN conjunct1] by (simp only: handles_blue_shirt)
  note t2 = t [THEN conjunct2, THEN conjunct1, rule_format, of 0]
  have pid: "shopify_product_id (?ps ! 0) = 9900000000001"
    using t2 len by (simp add: BASE_PRODUCT_ID_def)
  have vid: "var_id (raw_variants (sp_raw_data (?ps ! 0)) ! 1) = 9900000100002"
    using t2 [THEN conjunct2, THEN conjunct2, rule_format, of 1] len vlen
    by (simp add: BASE_VARIANT_ID_def)
  have gid: "map shopify_product_id (build_shopify_products_generic (\<lambda>s. s) gap_rows) =
             [9900000000002]"
    using g [THEN conjunct2, THEN conjunct2, THEN conjunct2, THEN conjunct1]
    unfolding rows_with_gap_rows[OF title_keys(1)] by (simp add: BASE_PRODUCT_ID_def)
  obtain newvs where "squarespace_variant_rows db' = cascade_kept ''m1'' empty_db @ newvs"
    "map vr_variant_id newvs =
       map (\<lambda>i. ''var-'' @ str_nat (nat (BASE_PRODUCT_ID + int i)))
         (rows_with [''title'', ''name'', ''product_name''] gap_rows)"
    using g [THEN conjunct2, THEN conjunct2, THEN conjunct2, THEN conjunct2, THEN conjunct2,
        THEN conjunct2, THEN conjunct2, THEN conjunct2, THEN conjunct2, THEN conjunct2,
        THEN conjunct2, THEN mp, OF conjI [OF lp imp]] by blast
  then have "map vr_variant_id (squarespace_variant_rows db') = [''var-9900000000002'']"
    unfolding rows_with_gap_rows[OF title_keys(3)] cascade_kept_empty
    by (simp add: str_nat_base)
  then have sv: "map vr_variant_id (squarespace_variant_rows
     (fst (projr (import_squarespace demo_env empty_db ''m1'' 1 gap_rows)))) =
     [''var-9900000000002'']"
    unfolding imp by simp
  have wid: "map wc_product_id (woocommerce_products (\<lambda>s. s) gap_rows) = [9900000000002]"
    using g [THEN conjunct2, THEN conjunct2, THEN conjunct2, THEN conjunct2, THEN conjunct2,
        THEN conjunct2, THEN conjunct1]
    unfolding rows_with_gap_rows[OF title_keys(2)] by (simp add: BASE_PRODUCT_ID_def)
  have qid: "map squarespace_product_id (squarespace_items demo_env gap_rows) =
             [''9900000000002'']"
    using g [THEN conjunct2, THEN conjunct2, THEN conjunct2, THEN conjunct2, THEN conjunct2,
        THEN conjunct2, THEN conjunct2, THEN conjunct2, THEN conjunct2, THEN conjunct1]
    unfolding rows_with_gap_rows[OF title_keys(3)] squarespace_items_def
    by (simp add: str_nat_base demo_env_fields)
  show ?thesis by (intro conjI h vlen pid vid gid wid qid sv)
qed

section \<open>Rows with and without a vector\<close>

text \<open>
  Claim C2, as stated, promises that a document chunk whose embedding failed is still
  inserted, without its vector. The document path skips such a chunk: for one chunk whose
  embedding call raises, nothing is inserted and the call returns 0.
\<close>

theorem C2_chunk_without_embedding_not_stored_counterexample:
  "generate_embeddings_batch (embed demo_env) [''bad''] = [None] \<and>
   store_document_embeddings demo_env empty_db ''m1'' (documents_of_text ''kb/a.txt'' ''bad'') =
     (empty_db, Inr 0)"
  by (simp add: store_document_embeddings_def documents_of_small_text
      get_connection_def commit_def rollback_def return_connection_def Let_def
      strip_def lstrip_def rstrip_def is_space_def batches_small
      generate_embeddings_batch_def demo_env_def fails_on_bad_def chunk_row_of_def
      empty_db_def)

text \<open>
  Claim C2, amended: a product whose embedding is \<open>None\<close> is still inserted, with the
  vector column not set. For each platform, an import that succeeds with a service
  returning one result per text leaves as the merchant's rows of the platform's product
  table exactly the built products, in order, each with the embedding the Embedding Batcher
  returned for it (\<open>None\<close> when its generation failed), and returns their number. A
  document chunk whose embedding is \<open>None\<close> is not inserted: after
  \<open>_store_document_embeddings\<close> the chunk table is what it was (after a rollback) or holds,
  for the merchant, the rows of the chunks that have an embedding only; every such row has
  its vector set, there is one row per chunk with an embedding, and the chunk loop adds
  exactly these rows for a batch.
\<close>

theorem C2_rows_with_and_without_vector:
  "(length_preserving (embed env) \<and> import_shopify env db m sid rows = Inr (db', n) \<longrightarrow>
      n = length (shopify_products (strip_html env) rows) \<and>
      map pr_product (merchant_rows m (shopify_product_rows db')) =
        shopify_products (strip_html env) rows \<and>
      map pr_embedding (merchant_rows m (shopify_product_rows db')) = shopify_embeddings env rows) \<and>
   (length_preserving (embed env) \<and> import_woocommerce env db m sid rows = Inr (db', n) \<longrightarrow>
      n = length (woocommerce_products (strip_html env) rows) \<and>
      map pr_product (merchant_rows m (woocommerce_product_rows db')) =
        woocommerce_products (strip_html env) rows \<and>
      map pr_embedding (merchant_rows m (woocommerce_product_rows db')) =
        woocommerce_embeddings env rows) \<and>
   (length_preserving (embed env) \<and> import_squarespace env db m sid rows = Inr (db', n) \<longrightarrow>
      n = length (squarespace_items env rows) \<and>
      map pr_product (merchant_rows m (squarespace_product_rows db')) =
        squarespace_items env rows \<and>
      map pr_embedding (merchant_rows m (squarespace_product_rows db')) =
        squarespace_embeddings env rows) \<and>
   (store_document_embeddings env db m docs = (db'', r) \<longrightarrow>
      document_chunk_rows db'' = document_chunk_rows db \<or>
      document_chunk_rows db'' =
        filter (\<lambda>r. cr_merchant_id r \<noteq> m) (document_chunk_rows db) @
        stored_chunks m (chunk_pairs (embed env)
          (filter (\<lambda>d. strip (doc_content d) \<noteq> []) docs))) \<and>
   (\<forall>row \<in> set (stored_chunks m cpairs). cr_embedding row \<noteq> None) \<and>
   length (stored_chunks m cpairs) = length (filter (\<lambda>ce. snd ce \<noteq> None) cpairs) \<and>
   (store_batch cfails m cpairs (ctbl, k) = Inr (ctbl', k') \<longrightarrow>
      ctbl' = ctbl @ stored_chunks m cpairs \<and>
      k' = k + length (stored_chunks m cpairs))"
proof (intro conjI impI)
  assume a: "length_preserving (embed env) \<and> import_shopify env db m sid rows = Inr (db', n)"
  then have lp: "length_preserving (embed env)"
    and ok: "import_shopify env db m sid rows = Inr (db', n)" by simp_all
  note r = import_shopify_result[OF lp ok]
  show "n = length (shopify_products (strip_html env) rows)" by (rule r(1))
  show "map pr_product (merchant_rows m (shopify_product_rows db')) =
        shopify_products (strip_html env) rows" by (rule r(4))
  show "map pr_embedding (merchant_rows m (shopify_product_rows db')) = shopify_embeddings env rows"
    by (rule r(5))
next
  assume a: "length_preserving (embed env) \<and> import_woocommerce env db m sid rows = Inr (db', n)"
  then have lp: "length_preserving (embed env)"
    and ok: "import_woocommerce env db m sid rows = Inr (db', n)" by simp_all
  note r = import_woocommerce_result[OF lp ok]
  show "n = length (woocommerce_products (strip_html env) rows)" by (rule r(1))
  show "map pr_product (merchant_rows m (woocommerce_product_rows db')) =
        woocommerce_products (strip_html env) rows" by (rule r(4))
  show "map pr_embedding (merchant_rows m (woocommerce_product_rows db')) =
        woocommerce_embeddings env rows"
    by (rule r(5))
next
  assume a: "length_preserving (embed env) \<and> import_squarespace env db m sid rows = Inr (db', n)"
  then have lp: "length_preserving (embed env)"
    and ok: "import_squarespace env db m sid rows = Inr (db', n)" by simp_all
  note r = import_squarespace_result[OF lp ok]
  show "n = length (squarespace_items env rows)" by (rule r(1))
  show "map pr_product (merchant_rows m (squarespace_product_rows db')) =
        squarespace_items env rows" by (rule r(4))
  show "map pr_embedding (merchant_rows m (squarespace_product_rows db')) =
        squarespace_embeddings env rows"
    by (rule r(5))
next
  assume a: "store_document_embeddings env db m docs = (db'', r)"
  from store_document_embeddings_cases[OF a]
  have "db'' = db \<or>
       db'' = db\<lparr> document_chunk_rows :=
                    filter (\<lambda>r. cr_merchant_id r \<noteq> m) (document_chunk_rows db) @
                    stored_chunks m (chunk_pairs (embed env)
                      (filter (\<lambda>d. strip (doc_content d) \<noteq> []) docs)) \<rparr>"
    by (rule conjunct2)
  then show "document_chunk_rows db'' = document_chunk_rows db \<or>
      document_chunk_rows db'' =
        filter (\<lambda>r. cr_merchant_id r \<noteq> m) (document_chunk_rows db) @
        stored_chunks m (chunk_pairs (embed env)
          (filter (\<lambda>d. strip (doc_content d) \<noteq> []) docs))"
    by auto
next
  show "\<forall>row \<in> set (stored_chunks m cpairs). cr_embedding row \<noteq> None"
    by (rule stored_chunks_have_embedding)
  show "length (stored_chunks m cpairs) = length (filter (\<lambda>ce. snd ce \<noteq> None) cpairs)"
    by (rule stored_chunks_length)
next
  assume a: "store_batch cfails m cpairs (ctbl, k) = Inr (ctbl', k')"
  note r = store_batch_rows[OF a]
  from r show "ctbl' = ctbl @ stored_chunks m cpairs" by (rule conjunct1)
  from r show "k' = k + length (stored_chunks m cpairs)" by (rule conjunct2)
qed

theorem C2_rows_with_and_without_vector_witness:
  "length_preserving (embed down_env) \<and>
   map shopify_product_id (map pr_product (merchant_rows ''m1'' (shopify_product_rows
     (fst (projr (import_shopify down_env empty_db ''m1'' 1 bad_rows)))))) = [9900000000001] \<and>
   map pr_embedding (merchant_rows ''m1'' (shopify_product_rows
     (fst (projr (import_shopify down_env empty_db ''m1'' 1 bad_rows))))) = [None] \<and>
   map wc_product_id (map pr_product (merchant_rows ''m1'' (woocommerce_product_rows
     (fst (projr (import_woocommerce down_env empty_db ''m1'' 1 bad_rows)))))) = [9900000000001] \<and>
   map pr_embedding (merchant_rows ''m1'' (woocommerce_product_rows
     (fst (projr (import_woocommerce down_env empty_db ''m1'' 1 bad_rows))))) = [None] \<and>
   map squarespace_product_id (map pr_product (merchant_rows ''m1'' (squarespace_product_rows
     (fst (projr (import_squarespace down_env empty_db ''m1'' 1 bad_rows)))))) =
     [''9900000000001''] \<and>
   map pr_embedding (merchant_rows ''m1'' (squarespace_product_rows
     (fst (projr (import_squarespace down_env empty_db ''m1'' 1 bad_rows))))) = [None] \<and>
   store_batch (\<lambda>r. False) ''m1'' [(note_doc, None), (note_doc, Some [1])] ([], 0) =
     Inr ([chunk_row_of ''m1'' note_doc [1]], 1) \<and>
   stored_chunks ''m1'' (chunk_pairs (embed down_env) [note_doc, note_doc]) = [] \<and>
   document_chunk_rows (fst (store_document_embeddings down_env old_db ''m2''
     [note_doc, note_doc])) = [old_chunk]"
proof -
  have lp: "length_preserving (embed down_env)"
    by (simp add: down_env_fields length_preserving_def)
  obtain dbs ns where s: "import_shopify down_env empty_db ''m1'' 1 bad_rows = Inr (dbs, ns)"
    using import_shopify_ok[of down_env empty_db "''m1''" 1 bad_rows]
    by (auto simp: down_env_fields)
  obtain dbw nw where w: "import_woocommerce down_env empty_db ''m1'' 1 bad_rows = Inr (dbw, nw)"
    using import_woocommerce_ok[of down_env empty_db "''m1''" 1 bad_rows]
    by (auto simp: down_env_fields)
  obtain dbq nq where q: "import_squarespace down_env empty_db ''m1'' 1 bad_rows = Inr (dbq, nq)"
    using import_squarespace_ok[of down_env empty_db "''m1''" 1 bad_rows]
    by (auto simp: down_env_fields)
  have sb: "store_batch (\<lambda>r. False) ''m1'' [(note_doc, None), (note_doc, Some [1])] ([], 0) =
     Inr ([chunk_row_of ''m1'' note_doc [1]], 1)"
    by simp
  note ts = C2_rows_with_and_without_vector
    [where env = down_env and db = empty_db and m = "''m1''" and sid = 1 and rows = bad_rows
       and db' = dbs and n = ns, THEN conjunct1, THEN mp, OF conjI [OF lp s]]
  note tw = C2_rows_with_and_without_vector
    [where env = down_env and db = empty_db and m = "''m1''" and sid = 1 and rows = bad_rows
       and db' = dbw and n = nw, THEN conjunct2, THEN conjunct1, THEN mp, OF conjI [OF lp w]]
  note tq = C2_rows_with_and_without_vector
    [where env = down_env and db = empty_db and m = "''m1''" and sid = 1 and rows = bad_rows
       and db' = dbq and n = nq, THEN conjunct2, THEN conjunct2, THEN conjunct1, THEN mp,
       OF conjI [OF lp q]]
  have s1: "map shopify_product_id (map pr_product (merchant_rows ''m1'' (shopify_product_rows
     (fst (projr (import_shopify down_env empty_db ''m1'' 1 bad_rows)))))) = [9900000000001]"
    unfolding s sum.sel fst_conv ts [THEN conjunct2, THEN conjunct1] bad_rows_ids
    by (simp add: BASE_PRODUCT_ID_def)
  have s2: "map pr_embedding (merchant_rows ''m1'' (shopify_product_rows
     (fst (projr (import_shopify down_env empty_db ''m1'' 1 bad_rows))))) = [None]"
    unfolding s sum.sel fst_conv ts [THEN conjunct2, THEN conjunct2] by (rule down_embeddings(1))
  have w1: "map wc_product_id (map pr_product (merchant_rows ''m1'' (woocommerce_product_rows
     (fst (projr (import_woocommerce down_env empty_db ''m1'' 1 bad_rows)))))) = [9900000000001]"
    unfolding w sum.sel fst_conv tw [THEN conjunct2, THEN conjunct1] bad_rows_ids
    by (simp add: BASE_PRODUCT_ID_def)
  have w2: "map pr_embedding (merchant_rows ''m1'' (woocommerce_product_rows
     (fst (projr (import_woocommerce down_env empty_db ''m1'' 1 bad_rows))))) = [None]"
    unfolding w sum.sel fst_conv tw [THEN conjunct2, THEN conjunct2] by (rule down_embeddings(2))
  have q1: "map squarespace_product_id (map pr_product (merchant_rows ''m1''
     (squarespace_product_rows
       (fst (projr (import_squarespace down_env empty_db ''m1'' 1 bad_rows)))))) =
     [''9900000000001'']"
    unfolding q sum.sel fst_conv tq [THEN conjunct2, THEN conjunct1] squarespace_items_def
      bad_rows_ids
    by (simp add: str_nat_base)
  have q2: "map pr_embedding (merchant_rows ''m1'' (squarespace_product_rows
     (fst (projr (import_squarespace down_env empty_db ''m1'' 1 bad_rows))))) = [None]"
    unfolding q sum.sel fst_conv tq [THEN conjunct2, THEN conjunct2] by (rule down_embeddings(3))
  have cp: "chunk_pairs (embed down_env) [note_doc, note_doc] =
            [(note_doc, None), (note_doc, None)]"
    by (simp add: chunk_pairs_def batches_small generate_embeddings_batch_def down_env_fields)
  have sc: "stored_chunks ''m1'' (chunk_pairs (embed down_env) [note_doc, note_doc]) = []"
    unfolding cp by (simp add: stored_chunks_def)
  have nb: "filter (\<lambda>d. strip (doc_content d) \<noteq> []) [note_doc, note_doc] = [note_doc, note_doc]"
    by (simp add: note_doc_def strip_def lstrip_def rstrip_def is_space_def)
  obtain dbd rd where d: "store_document_embeddings down_env old_db ''m2'' [note_doc, note_doc] =
      (dbd, rd)"
    by (cases "store_document_embeddings down_env old_db ''m2'' [note_doc, note_doc]")
  have "document_chunk_rows dbd = document_chunk_rows old_db \<or>
        document_chunk_rows dbd =
          filter (\<lambda>r. cr_merchant_id r \<noteq> ''m2'') (document_chunk_rows old_db) @
          stored_chunks ''m2'' (chunk_pairs (embed down_env)
            (filter (\<lambda>d. strip (doc_content d) \<noteq> []) [note_doc, note_doc]))"
    using C2_rows_with_and_without_vector
      [where env = down_env and db = old_db and m = "''m2''" and docs = "[note_doc, note_doc]"
         and db'' = dbd and r = rd, THEN conjunct2, THEN conjunct2, THEN conjunct2,
       THEN conjunct1, THEN mp, OF d] .
  then have "document_chunk_rows dbd = [old_chunk]"
    unfolding nb cp by (auto simp: stored_chunks_def old_db_def empty_db_def old_chunk_def)
  then have dr: "document_chunk_rows (fst (store_document_embeddings down_env old_db ''m2''
     [note_doc, note_doc])) = [old_chunk]"
    unfolding d by simp
  show ?thesis by (intro conjI lp s1 s2 w1 w2 q1 q2 sb sc dr)
qed

section \<open>The delete-then-insert transaction\<close>




end
